theory Spec2Isabelle
  imports Complex_Main "HOL-Library.Multiset" "HOL-Library.Log_Nat" "HOL-Library.Option_ord"
begin

section \<open>JSON values and the OpenAlex inverted index (sources/utils.ts)\<close>

text \<open>
  The adapters receive decoded JSON. An inverted index is an object whose entries are
  enumerated by \<^verbatim>\<open>Object.entries\<close>; the model takes that enumeration as an association
  list, and \<open>None\<close> for \<^verbatim>\<open>null\<close>/\<^verbatim>\<open>undefined\<close>. The values are arbitrary JSON, so that
  malformed entries (a non-array value, a non-numeric or negative position) are inputs of
  the model.
\<close>

datatype json =
    JNull
  | JBool bool
  | JNum real
  | JStr string
  | JArr "json list"
  | JObj "(string \<times> json) list"

text \<open>The inner loop \<^verbatim>\<open>for (const pos of positions)\<close> with its guard
  \<^verbatim>\<open>typeof pos === 'number' && pos >= 0\<close>.\<close>

fun push_positions :: "string \<Rightarrow> json list \<Rightarrow> (real \<times> string) list" where
  "push_positions word [] = []"
| "push_positions word (JNum pos # ps) =
     (if pos \<ge> 0 then (pos, word) # push_positions word ps else push_positions word ps)"
| "push_positions word (_ # ps) = push_positions word ps"

text \<open>The outer loop over \<^verbatim>\<open>Object.entries(invertedIndex)\<close> with its guard
  \<^verbatim>\<open>if (!Array.isArray(positions)) continue\<close>.\<close>

fun collect_words :: "(string \<times> json) list \<Rightarrow> (real \<times> string) list" where
  "collect_words [] = []"
| "collect_words ((word, JArr ps) # es) = push_positions word ps @ collect_words es"
| "collect_words (_ # es) = collect_words es"

text \<open>\<^verbatim>\<open>Array.prototype.join(' ')\<close>.\<close>

fun join_space :: "string list \<Rightarrow> string" where
  "join_space [] = []"
| "join_space [w] = w"
| "join_space (w # ws) = w @ '' '' @ join_space ws"

text \<open>\<^verbatim>\<open>words.sort((a, b) => a[0] - b[0])\<close> is a stable sort on the position
  (ECMAScript 2019), which is what \<open>sort_key fst\<close> computes.\<close>

definition invertedIndexToText :: "(string \<times> json) list option \<Rightarrow> string option" where
  "invertedIndexToText invertedIndex =
     (case invertedIndex of
        None \<Rightarrow> None
      | Some es \<Rightarrow>
          (let words = collect_words es in
           if words = [] then None
           else Some (join_space (map snd (sort_key fst words)))))"

text \<open>
  The specification's reading of the same function: an occurrence is a pair of a
  non-negative numeric position and the word of an entry whose value is an array.
\<close>

definition occurrences :: "(string \<times> json) list \<Rightarrow> (real \<times> string) list" where
  "occurrences es =
     concat (map (\<lambda>(word, v).
        case v of
          JArr ps \<Rightarrow> concat (map (\<lambda>p. case p of
                                     JNum pos \<Rightarrow> if 0 \<le> pos then [(pos, word)] else []
                                   | _ \<Rightarrow> []) ps)
        | _ \<Rightarrow> []) es)"

section \<open>JavaScript numbers\<close>

text \<open>
  A JavaScript number is an IEEE 754 binary64 value: a finite value, which is given by
  the real number it denotes, or one of \<^verbatim>\<open>Infinity\<close>, \<^verbatim>\<open>-Infinity\<close> and \<^verbatim>\<open>NaN\<close>. The two zeros
  denote the same real number and are one value here; they are \<^verbatim>\<open>===\<close> in JavaScript.
\<close>

datatype jsnum = Fin real | PosInfinity | NegInfinity | NaN

text \<open>The binary exponent of a positive real \<open>x\<close>: the \<open>e\<close> with \<open>2\<^sup>e \<le> x < 2\<^sup>e\<^sup>+\<^sup>1\<close>.\<close>

definition expo :: "real \<Rightarrow> int" where
  "expo x = (if 1 \<le> x then bitlen \<lfloor>x\<rfloor> - 1 else - bitlen (\<lceil>1 / x\<rceil> - 1))"

text \<open>The nearest integer, the even one of the two when they are equally near.\<close>

definition round_even :: "real \<Rightarrow> int" where
  "round_even y =
     (let f = \<lfloor>y\<rfloor>; r = y - of_int f
      in if r < 1 / 2 then f else if 1 / 2 < r then f + 1 else if even f then f else f + 1)"

text \<open>
  The rounding of every arithmetic operation: the nearest binary64 value, ties to even.
  A value of exponent \<open>e\<close> has 53 significant bits, so its neighbours are \<open>2\<^sup>e\<^sup>-\<^sup>5\<^sup>2\<close> apart;
  below \<open>2\<^sup>-\<^sup>1\<^sup>0\<^sup>2\<^sup>2\<close> the values are \<open>2\<^sup>-\<^sup>1\<^sup>0\<^sup>7\<^sup>4\<close> apart (gradual underflow), and a result that
  rounds to \<open>2\<^sup>1\<^sup>0\<^sup>2\<^sup>4\<close> or beyond is infinite.
\<close>

definition to_double :: "real \<Rightarrow> jsnum" where
  "to_double x =
     (if x = 0 then Fin 0
      else let q = max (expo \<bar>x\<bar> - 52) (- 1074);
               y = of_int (round_even (x / 2 powi q)) * 2 powi q
           in if 2 powi 1024 \<le> y then PosInfinity
              else if y \<le> - (2 powi 1024) then NegInfinity
              else Fin y)"

text \<open>The sign of a number, 0 for a zero and for \<^verbatim>\<open>NaN\<close>.\<close>

fun js_sign :: "jsnum \<Rightarrow> int" where
  "js_sign (Fin a) = (if 0 < a then 1 else if a < 0 then - 1 else 0)"
| "js_sign PosInfinity = 1"
| "js_sign NegInfinity = - 1"
| "js_sign NaN = 0"

definition js_signed_inf :: "int \<Rightarrow> jsnum" where
  "js_signed_inf s = (if s = 0 then NaN else if 0 < s then PosInfinity else NegInfinity)"

text \<open>\<^verbatim>\<open>x + y\<close>: the rounded sum; \<^verbatim>\<open>Infinity + -Infinity\<close> is \<^verbatim>\<open>NaN\<close>.\<close>

fun js_add :: "jsnum \<Rightarrow> jsnum \<Rightarrow> jsnum" where
  "js_add (Fin a) (Fin b) = to_double (a + b)"
| "js_add (Fin a) y = y"
| "js_add x (Fin b) = x"
| "js_add x y = (if x = y then x else NaN)"

text \<open>\<^verbatim>\<open>x * y\<close>: the rounded product; an infinity times a zero is \<^verbatim>\<open>NaN\<close>.\<close>

fun js_mul :: "jsnum \<Rightarrow> jsnum \<Rightarrow> jsnum" where
  "js_mul (Fin a) (Fin b) = to_double (a * b)"
| "js_mul x y = (if x = NaN \<or> y = NaN then NaN else js_signed_inf (js_sign x * js_sign y))"

text \<open>
  \<^verbatim>\<open>x / y\<close>: the rounded quotient. A zero divisor is taken as \<^verbatim>\<open>+0\<close>, the only zero that the
  sums of squares and the square roots of the modelled code produce.
\<close>

fun js_div :: "jsnum \<Rightarrow> jsnum \<Rightarrow> jsnum" where
  "js_div (Fin a) (Fin b) = (if b = 0 then js_signed_inf (js_sign (Fin a)) else to_double (a / b))"
| "js_div (Fin a) y = (if y = NaN then NaN else Fin 0)"
| "js_div x (Fin b) = (if x = NaN then NaN else js_signed_inf (js_sign x * (if b < 0 then - 1 else 1)))"
| "js_div x y = NaN"

text \<open>\<^verbatim>\<open>Math.sqrt\<close>: the rounded square root (IEEE 754 \<^verbatim>\<open>squareRoot\<close>), \<^verbatim>\<open>NaN\<close> below zero.\<close>

fun js_sqrt :: "jsnum \<Rightarrow> jsnum" where
  "js_sqrt (Fin a) = (if a < 0 then NaN else to_double (sqrt a))"
| "js_sqrt PosInfinity = PosInfinity"
| "js_sqrt x = NaN"

text \<open>\<^verbatim>\<open>x >= t\<close> for a finite \<open>t\<close>.\<close>

fun js_ge :: "jsnum \<Rightarrow> real \<Rightarrow> bool" where
  "js_ge (Fin a) t = (t \<le> a)"
| "js_ge PosInfinity t = True"
| "js_ge x t = False"

section \<open>The data model (types/paper.ts, types/edge.ts)\<close>

datatype PaperSource = OpenAlex | S2

text \<open>
  The interface \<^verbatim>\<open>Paper\<close>. \<open>paper_id\<close> is optional in the source (\<^verbatim>\<open>paper_id?: number\<close>);
  row ids are SQLite rowids, natural numbers from 1. The column \<^verbatim>\<open>created_at\<close> is filled
  by the store's clock and read by none of the modelled code; it is left out.
\<close>

record paper =
  paper_id :: "nat option"
  source :: PaperSource
  source_id :: string
  doi :: "string option"
  arxiv_id :: "string option"
  title :: string
  abstract :: "string option"
  year :: "int option"
  venue :: "string option"
  url :: "string option"
  citation_count :: int
  influence_score :: "real option"
  keywords_json :: "string option"
  concepts_json :: "string option"

datatype EdgeType =
    CITES | CITED_BY | CO_CITED | BIB_COUPLED | SIMILAR_TEXT
  | SHARED_KEYWORDS | SAME_AUTHOR | SAME_VENUE
  | EXTENDS | IMPROVES | SURVEYS | CONTRADICTS
  | USES_METHOD | INTRODUCES_METHOD | USES_DATASET | INTRODUCES_DATASET

datatype EdgeCreator = algo | llm

text \<open>
  The interface \<^verbatim>\<open>Edge\<close> without \<^verbatim>\<open>edge_id\<close> and \<^verbatim>\<open>created_at\<close>
  (\<^verbatim>\<open>Omit<Edge, 'edge_id' | 'created_at'>\<close>). The weight and the confidence are
  JavaScript numbers. The provenance, a \<^verbatim>\<open>JSON.stringify\<close> of an object literal, is kept
  as the JSON value.
\<close>

record edge =
  src_paper_id :: nat
  dst_paper_id :: nat
  type :: EdgeType
  weight :: jsnum
  confidence :: jsnum
  rationale :: "string option"
  evidence :: "string option"
  created_by :: EdgeCreator
  provenance_json :: json

section \<open>The store (storage/database.ts)\<close>

text \<open>
  A table is the list of its rows in insertion order, each with its rowid. The tables
  \<^verbatim>\<open>papers\<close>, \<^verbatim>\<open>edges\<close>, \<^verbatim>\<open>clusters\<close>, \<^verbatim>\<open>paper_clusters\<close> and \<^verbatim>\<open>runs\<close> are the ones
  the build touches; the junction table \<^verbatim>\<open>paper_clusters\<close> has the primary key
  \<^verbatim>\<open>(paper_id, cluster_id)\<close> and no rowid of its own in the model. The names \<open>run_source\<close>,
  \<open>run_spine\<close>, \<open>run_depth\<close> and \<open>cluster_stats\<close> stand for the columns \<^verbatim>\<open>source\<close>,
  \<^verbatim>\<open>spine\<close>, \<^verbatim>\<open>depth\<close> and \<^verbatim>\<open>stats_json\<close>. The foreign keys of \<^verbatim>\<open>edges\<close> are not
  modelled: the build inserts edges between ids it has read from \<^verbatim>\<open>papers\<close>, and no row is
  ever deleted.
  \<open>lastInsertRowid\<close> is the connection's \<^verbatim>\<open>sqlite3_last_insert_rowid\<close>, which
  better-sqlite3 reports after every statement.
\<close>

record run_record =
  created_at :: string
  papergraph_version :: string
  config_json :: string
  run_source :: string
  run_spine :: string
  run_depth :: int
  stats_json :: string

record cluster =
  cluster_method :: string
  name :: "string option"
  description :: "string option"
  cluster_stats :: json

record database =
  papers :: "(nat \<times> paper) list"
  edges :: "(nat \<times> edge) list"
  clusters :: "(nat \<times> cluster) list"
  paper_clusters :: "(nat \<times> nat) list"
  runs :: "(nat \<times> run_record) list"
  lastInsertRowid :: nat
  handle_closed :: bool

text \<open>An \<^verbatim>\<open>INTEGER PRIMARY KEY\<close> without \<^verbatim>\<open>AUTOINCREMENT\<close>: the new rowid is one more
  than the largest rowid in the table, and 1 in an empty table.\<close>

definition next_rowid :: "(nat \<times> 'a) list \<Rightarrow> nat" where
  "next_rowid tbl = fold max (map fst tbl) 0 + 1"

definition has_key :: "PaperSource \<Rightarrow> string \<Rightarrow> nat \<times> paper \<Rightarrow> bool" where
  "has_key s sid r = (source (snd r) = s \<and> source_id (snd r) = sid)"

text \<open>\<^verbatim>\<open>SELECT *\<close> returns the columns of a row together with its rowid as
  \<^verbatim>\<open>paper_id\<close>.\<close>

definition row_paper :: "nat \<times> paper \<Rightarrow> paper" where
  "row_paper r = (snd r)\<lparr>paper_id := Some (fst r)\<rparr>"

definition getPaperBySourceId :: "database \<Rightarrow> PaperSource \<Rightarrow> string \<Rightarrow> paper option" where
  "getPaperBySourceId db s sid = map_option row_paper (find (has_key s sid) (papers db))"

definition getPaperCount :: "database \<Rightarrow> nat" where
  "getPaperCount db = length (papers db)"

text \<open>The insert statements bind every column but \<^verbatim>\<open>paper_id\<close>.\<close>

definition columns :: "paper \<Rightarrow> paper" where
  "columns p = p\<lparr>paper_id := None\<rparr>"

text \<open>SQL \<^verbatim>\<open>COALESCE(a, b)\<close>.\<close>

definition coalesce :: "'a option \<Rightarrow> 'a option \<Rightarrow> 'a option" where
  "coalesce a b = (case a of Some x \<Rightarrow> Some x | None \<Rightarrow> b)"

text \<open>The \<^verbatim>\<open>DO UPDATE SET\<close> clause of \<^verbatim>\<open>upsertPaper\<close>: \<open>excluded\<close> is the incoming
  record, \<open>row\<close> the stored one.\<close>

definition do_update :: "paper \<Rightarrow> paper \<Rightarrow> paper" where
  "do_update excluded row =
     row\<lparr>doi := coalesce (doi excluded) (doi row),
         arxiv_id := coalesce (arxiv_id excluded) (arxiv_id row),
         title := title excluded,
         abstract := coalesce (abstract excluded) (abstract row),
         year := coalesce (year excluded) (year row),
         venue := coalesce (venue excluded) (venue row),
         url := coalesce (url excluded) (url row),
         citation_count := max (citation_count row) (citation_count excluded),
         influence_score := coalesce (influence_score excluded) (influence_score row),
         keywords_json := coalesce (keywords_json excluded) (keywords_json row),
         concepts_json := coalesce (concepts_json excluded) (concepts_json row)\<rparr>"

text \<open>The update touches the row that conflicts on \<^verbatim>\<open>(source, source_id)\<close>.\<close>

fun update_conflict :: "paper \<Rightarrow> (nat \<times> paper) list \<Rightarrow> (nat \<times> paper) list" where
  "update_conflict p [] = []"
| "update_conflict p (r # rs) =
     (if has_key (source p) (source_id p) r then (fst r, do_update p (snd r)) # rs
      else r # update_conflict p rs)"

text \<open>
  \<^verbatim>\<open>stmt.run(paper)\<close> of \<^verbatim>\<open>upsertPaper\<close>: the new store and \<^verbatim>\<open>result.changes\<close>. An
  insert sets \<open>lastInsertRowid\<close>; the update of a conflicting row leaves it as it was.
\<close>

definition upsert_run :: "paper \<Rightarrow> database \<Rightarrow> database \<times> nat" where
  "upsert_run p db =
     (if list_ex (has_key (source p) (source_id p)) (papers db)
      then (db\<lparr>papers := update_conflict p (papers db)\<rparr>, 1)
      else (db\<lparr>papers := papers db @ [(next_rowid (papers db), columns p)],
               lastInsertRowid := next_rowid (papers db)\<rparr>, 1))"

text \<open>\<^verbatim>\<open>upsertPaper\<close> returns \<^verbatim>\<open>lastInsertRowid\<close> when it is non-zero, else the id found
  by a lookup, else \<open>-1\<close>.\<close>

definition upsertPaper :: "paper \<Rightarrow> database \<Rightarrow> database \<times> int" where
  "upsertPaper p db =
     (let (db', changes) = upsert_run p db in
      if changes > 0 \<and> lastInsertRowid db' \<noteq> 0 then (db', int (lastInsertRowid db'))
      else (db', case getPaperBySourceId db' (source p) (source_id p) of
                   Some existing \<Rightarrow> (case paper_id existing of Some i \<Rightarrow> int i | None \<Rightarrow> - 1)
                 | None \<Rightarrow> - 1))"

text \<open>
  \<^verbatim>\<open>insertPapers\<close>: \<^verbatim>\<open>INSERT OR IGNORE\<close> for every paper, in one transaction. A row that
  collides on \<^verbatim>\<open>(source, source_id)\<close> is left as it is and its id is looked up.
\<close>

definition insert_or_ignore :: "paper \<Rightarrow> database \<Rightarrow> database \<times> nat" where
  "insert_or_ignore p db =
     (if list_ex (has_key (source p) (source_id p)) (papers db) then (db, 0)
      else (db\<lparr>papers := papers db @ [(next_rowid (papers db), columns p)],
               lastInsertRowid := next_rowid (papers db)\<rparr>, 1))"

definition insert_paper_step :: "paper \<Rightarrow> database \<times> nat list \<Rightarrow> database \<times> nat list" where
  "insert_paper_step p st =
     (let (db', changes) = insert_or_ignore p (fst st) in
      if changes > 0 then (db', snd st @ [lastInsertRowid db'])
      else (case getPaperBySourceId db' (source p) (source_id p) of
              Some existing \<Rightarrow>
                (case paper_id existing of
                   Some i \<Rightarrow> (db', snd st @ [i])
                 | None \<Rightarrow> (db', snd st))
            | None \<Rightarrow> (db', snd st)))"

definition insertPapers :: "paper list \<Rightarrow> database \<Rightarrow> database \<times> nat list" where
  "insertPapers ps db = fold insert_paper_step ps (db, [])"

text \<open>\<^verbatim>\<open>SELECT * FROM papers ORDER BY paper_id\<close> and the same for \<^verbatim>\<open>edges\<close>.\<close>

definition getAllPapers :: "database \<Rightarrow> paper list" where
  "getAllPapers db = map row_paper (sort_key fst (papers db))"

definition getAllEdges :: "database \<Rightarrow> edge list" where
  "getAllEdges db = map snd (sort_key fst (edges db))"

definition insert_edge :: "edge \<Rightarrow> database \<Rightarrow> database" where
  "insert_edge e db =
     db\<lparr>edges := edges db @ [(next_rowid (edges db), e)],
        lastInsertRowid := next_rowid (edges db)\<rparr>"

definition insertEdges :: "edge list \<Rightarrow> database \<Rightarrow> database" where
  "insertEdges es db = fold insert_edge es db"

text \<open>\<^verbatim>\<open>insertClusters\<close>: the cluster row, then the junction rows of
  \<^verbatim>\<open>paperMappings.get(clusterIndex) ?? []\<close> with \<^verbatim>\<open>INSERT OR IGNORE\<close>.\<close>

definition insert_link :: "nat \<Rightarrow> nat \<Rightarrow> database \<Rightarrow> database" where
  "insert_link clusterId paperId db =
     (if (paperId, clusterId) \<in> set (paper_clusters db) then db
      else db\<lparr>paper_clusters := paper_clusters db @ [(paperId, clusterId)]\<rparr>)"

definition insert_cluster_step ::
  "(nat \<times> nat list) list \<Rightarrow> cluster \<Rightarrow> database \<times> nat \<Rightarrow> database \<times> nat" where
  "insert_cluster_step paperMappings c st =
     (let db = fst st;
          clusterId = next_rowid (clusters db);
          db1 = db\<lparr>clusters := clusters db @ [(clusterId, c)], lastInsertRowid := clusterId\<rparr>;
          paperIds = (case map_of paperMappings (snd st) of Some ids \<Rightarrow> ids | None \<Rightarrow> [])
      in (fold (insert_link clusterId) paperIds db1, snd st + 1))"

definition insertClusters :: "cluster list \<Rightarrow> (nat \<times> nat list) list \<Rightarrow> database \<Rightarrow> database" where
  "insertClusters cs paperMappings db = fst (fold (insert_cluster_step paperMappings) cs (db, 0))"

text \<open>\<^verbatim>\<open>UPDATE papers SET influence_score = ? WHERE paper_id = ?\<close>.\<close>

definition updatePaperScore :: "nat \<Rightarrow> real \<Rightarrow> database \<Rightarrow> database" where
  "updatePaperScore paperId score db =
     db\<lparr>papers := map (\<lambda>r. if fst r = paperId
                            then (fst r, (snd r)\<lparr>influence_score := Some score\<rparr>) else r)
                    (papers db)\<rparr>"

definition insertRun :: "run_record \<Rightarrow> database \<Rightarrow> database \<times> nat" where
  "insertRun run db =
     (db\<lparr>runs := runs db @ [(next_rowid (runs db), run)], lastInsertRowid := next_rowid (runs db)\<rparr>,
      next_rowid (runs db))"

text \<open>\<^verbatim>\<open>getStats\<close>; the table \<^verbatim>\<open>entities\<close> is written by no modelled operation and its count
  is left out. \<open>edgesByType\<close> lists the types that occur, each with its count.\<close>

record stats =
  stat_papers :: nat
  stat_edges :: nat
  stat_clusters :: nat
  stat_runs :: nat
  edgesByType :: "(EdgeType \<times> nat) list"

definition getStats :: "database \<Rightarrow> stats" where
  "getStats db =
     \<lparr>stat_papers = getPaperCount db, stat_edges = length (edges db),
      stat_clusters = length (clusters db), stat_runs = length (runs db),
      edgesByType = map (\<lambda>t. (t, length (filter (\<lambda>r. type (snd r) = t) (edges db))))
                      (remdups (map (\<lambda>r. type (snd r)) (edges db)))\<rparr>"

definition close_db :: "database \<Rightarrow> database" where
  "close_db db = db\<lparr>handle_closed := True\<rparr>"

text \<open>The unique index \<^verbatim>\<open>idx_papers_source_unique\<close> on \<^verbatim>\<open>papers(source, source_id)\<close>.\<close>

definition unique_keys :: "database \<Rightarrow> bool" where
  "unique_keys db = distinct (map (\<lambda>r. (source (snd r), source_id (snd r))) (papers db))"

text \<open>Values for the examples: a fresh store, and the record of the upsert test in
  \<^verbatim>\<open>database.test.ts\<close>.\<close>

definition empty_db :: database where
  "empty_db = \<lparr>papers = [], edges = [], clusters = [], paper_clusters = [], runs = [],
     lastInsertRowid = 0, handle_closed = False\<rparr>"

definition test_paper :: paper where
  "test_paper = \<lparr>paper_id = None, source = OpenAlex, source_id = ''W123'', doi = None,
     arxiv_id = None, title = ''Original Title'', abstract = None, year = Some 2024,
     venue = None, url = None, citation_count = 10, influence_score = None,
     keywords_json = None, concepts_json = None\<rparr>"

section \<open>JavaScript maps and sets in insertion order\<close>

text \<open>
  A \<^verbatim>\<open>Map<K, V>\<close> is modelled by the list of its entries in iteration (insertion) order,
  a \<^verbatim>\<open>Set<K>\<close> by the list of its elements. \<^verbatim>\<open>Map.prototype.set\<close> overwrites the value
  of a key that is present, in place, and appends a new key; \<^verbatim>\<open>Map.prototype.get\<close> is
  \<open>map_of\<close>.
\<close>

fun map_set :: "'k \<Rightarrow> 'v \<Rightarrow> ('k \<times> 'v) list \<Rightarrow> ('k \<times> 'v) list" where
  "map_set k v [] = [(k, v)]"
| "map_set k v ((k', v') # m) = (if k' = k then (k, v) # m else (k', v') # map_set k v m)"

definition set_add :: "'k \<Rightarrow> 'k list \<Rightarrow> 'k list" where
  "set_add k s = (if k \<in> set s then s else s @ [k])"

section \<open>The tokenizer (nlp/tokenizer.ts, nlp/stopwords.ts)\<close>

text \<open>
  Text is modelled as a list of ASCII characters. \<^verbatim>\<open>toLowerCase\<close> maps \<open>A\<close>..\<open>Z\<close> to
  \<open>a\<close>..\<open>z\<close>; the class \<^verbatim>\<open>\s\<close> is tab, line feed, vertical tab, form feed, carriage
  return and space.
\<close>

definition STOPWORDS :: "string list" where
  "STOPWORDS =
    [''a'', ''about'', ''above'', ''after'', ''again'', ''against'', ''all'', ''am'', ''an'', ''and'',
     ''any'', ''are'', ''aren'', ''aren'' @ [CHR 0x27] @ ''t'', ''as'', ''at'', ''be'', ''because'',
     ''been'', ''before'', ''being'', ''below'', ''between'', ''both'', ''but'', ''by'', ''can'',
     ''could'', ''couldn'', ''couldn'' @ [CHR 0x27] @ ''t'', ''d'', ''did'', ''didn'',
     ''didn'' @ [CHR 0x27] @ ''t'', ''do'', ''does'', ''doesn'', ''doesn'' @ [CHR 0x27] @ ''t'',
     ''doing'', ''don'', ''don'' @ [CHR 0x27] @ ''t'', ''down'', ''during'', ''each'', ''few'',
     ''for'', ''from'', ''further'', ''get'', ''got'', ''had'', ''hadn'',
     ''hadn'' @ [CHR 0x27] @ ''t'', ''has'', ''hasn'', ''hasn'' @ [CHR 0x27] @ ''t'', ''have'',
     ''haven'', ''haven'' @ [CHR 0x27] @ ''t'', ''having'', ''he'', ''her'', ''here'', ''hers'',
     ''herself'', ''him'', ''himself'', ''his'', ''how'', ''i'', ''if'', ''in'', ''into'', ''is'',
     ''isn'', ''isn'' @ [CHR 0x27] @ ''t'', ''it'', ''it'' @ [CHR 0x27] @ ''s'', ''its'', ''itself'',
     ''just'', ''let'', ''ll'', ''m'', ''ma'', ''may'', ''me'', ''might'', ''mightn'',
     ''mightn'' @ [CHR 0x27] @ ''t'', ''more'', ''most'', ''much'', ''must'', ''mustn'',
     ''mustn'' @ [CHR 0x27] @ ''t'', ''my'', ''myself'', ''need'', ''needn'',
     ''needn'' @ [CHR 0x27] @ ''t'', ''no'', ''nor'', ''not'', ''now'', ''o'', ''of'', ''off'',
     ''on'', ''once'', ''only'', ''or'', ''other'', ''our'', ''ours'', ''ourselves'', ''out'',
     ''over'', ''own'', ''quite'', ''re'', ''s'', ''said'', ''same'', ''shan'',
     ''shan'' @ [CHR 0x27] @ ''t'', ''she'', ''she'' @ [CHR 0x27] @ ''s'', ''should'',
     ''should'' @ [CHR 0x27] @ ''ve'', ''shouldn'', ''shouldn'' @ [CHR 0x27] @ ''t'', ''so'',
     ''some'', ''such'', ''t'', ''than'', ''that'', ''that'' @ [CHR 0x27] @ ''ll'', ''the'',
     ''their'', ''theirs'', ''them'', ''themselves'', ''then'', ''there'', ''these'', ''they'',
     ''this'', ''those'', ''through'', ''to'', ''too'', ''under'', ''until'', ''up'', ''upon'',
     ''ve'', ''very'', ''was'', ''wasn'', ''wasn'' @ [CHR 0x27] @ ''t'', ''we'', ''were'',
     ''weren'', ''weren'' @ [CHR 0x27] @ ''t'', ''what'', ''when'', ''where'', ''which'', ''while'',
     ''who'', ''whom'', ''why'', ''will'', ''with'', ''won'', ''won'' @ [CHR 0x27] @ ''t'',
     ''would'', ''wouldn'', ''wouldn'' @ [CHR 0x27] @ ''t'', ''y'', ''you'',
     ''you'' @ [CHR 0x27] @ ''d'', ''you'' @ [CHR 0x27] @ ''ll'', ''you'' @ [CHR 0x27] @ ''re'',
     ''you'' @ [CHR 0x27] @ ''ve'', ''your'', ''yours'', ''yourself'', ''yourselves'',
     ''also'', ''based'', ''et'', ''al'', ''using'', ''via'', ''vs'', ''use'', ''used'', ''show'',
     ''shows'', ''shown'', ''propose'', ''proposed'', ''paper'', ''approach'', ''method'',
     ''results'', ''model'', ''models'', ''work'', ''study'', ''new'', ''novel'', ''present'',
     ''presented'', ''demonstrate'', ''demonstrated'', ''provide'', ''provided'',
     ''however'', ''therefore'', ''thus'', ''hence'', ''although'', ''moreover'',
     ''furthermore'', ''additionally'', ''specifically'', ''respectively'']"

definition char_code :: "char \<Rightarrow> nat" where
  "char_code c = of_char c"

definition to_lower :: "char \<Rightarrow> char" where
  "to_lower c =
     (if char_code CHR ''A'' \<le> char_code c \<and> char_code c \<le> char_code CHR ''Z''
      then char_of (char_code c + 32) else c)"

definition is_space :: "char \<Rightarrow> bool" where
  "is_space c = (c \<in> set [CHR 0x09, CHR 0x0A, CHR 0x0B, CHR 0x0C, CHR 0x0D, CHR '' ''])"

definition is_digit :: "char \<Rightarrow> bool" where
  "is_digit c = (char_code CHR ''0'' \<le> char_code c \<and> char_code c \<le> char_code CHR ''9'')"

text \<open>\<^verbatim>\<open>.replace(/[^a-z0-9\s-]/g, ' ')\<close>.\<close>

definition strip_char :: "char \<Rightarrow> char" where
  "strip_char c =
     (if (char_code CHR ''a'' \<le> char_code c \<and> char_code c \<le> char_code CHR ''z'') \<or> is_digit c \<or> is_space c \<or> c = CHR ''-''
      then c else CHR '' '')"

text \<open>\<^verbatim>\<open>.split(/\s+/)\<close>: the pieces between maximal runs of white space, with an empty
  piece before a leading and after a trailing run. \<open>cur\<close> is the piece being read,
  reversed.\<close>

function split_ws :: "string \<Rightarrow> string \<Rightarrow> string list" where
  "split_ws cur [] = [rev cur]"
| "split_ws cur (c # cs) =
     (if is_space c then rev cur # split_ws [] (dropWhile is_space cs)
      else split_ws (c # cur) cs)"
  by pat_completeness auto
termination
  by (relation "measure (\<lambda>(cur, cs). length cs)")
     (auto simp: length_dropWhile_le le_imp_less_Suc)

text \<open>\<^verbatim>\<open>token.replace(/^-+|-+$/g, '')\<close>.\<close>

definition trim_hyphens :: "string \<Rightarrow> string" where
  "trim_hyphens token =
     rev (dropWhile (\<lambda>c. c = CHR ''-'') (rev (dropWhile (\<lambda>c. c = CHR ''-'') token)))"

definition tokenize :: "string \<Rightarrow> string list" where
  "tokenize text =
     (if text = [] then []
      else filter (\<lambda>token. length token > 1 \<and> token \<notin> set STOPWORDS \<and>
                     \<not> (token \<noteq> [] \<and> list_all is_digit token))
             (map trim_hyphens (split_ws [] (map strip_char (map to_lower text)))))"

section \<open>The TF-IDF corpus (nlp/tfidf.ts)\<close>

text \<open>
  A weight of a corpus is a finite number, given by the real number it denotes. The
  builder divides counts and takes logarithms, and \<^verbatim>\<open>Math.log\<close> is approximated as the
  implementation chooses; the model computes these weights exactly. The statements on
  \<open>cosineSimilarity\<close> below are for every vector of finite weights, whatever their values.
\<close>

record TfIdfCorpus =
  documents :: "(string \<times> (string \<times> real) list) list"
  df :: "(string \<times> nat) list"
  corpus_size :: nat

text \<open>\<^verbatim>\<open>String(n)\<close> for a natural number: its decimal digits.\<close>

definition digit_char :: "nat \<Rightarrow> char" where
  "digit_char d = char_of (char_code CHR ''0'' + d)"

function string_of_nat :: "nat \<Rightarrow> string" where
  "string_of_nat n =
     (if 10 \<le> n then string_of_nat (n div 10) @ [digit_char (n mod 10)] else [digit_char n])"
  by pat_completeness auto
termination
  by (relation "measure id") auto

text \<open>\<^verbatim>\<open>paper.source_id || String(paper.paper_id)\<close>.\<close>

definition doc_id :: "paper \<Rightarrow> string" where
  "doc_id p =
     (if source_id p \<noteq> [] then source_id p
      else case paper_id p of Some n \<Rightarrow> string_of_nat n | None \<Rightarrow> ''undefined'')"

text \<open>
  The text of a paper. \<^verbatim>\<open>JSON.parse(paper.keywords_json).join(' ')\<close> is a library call on an
  arbitrary string; it is the parameter \<open>joinKeywords\<close>, which returns \<open>None\<close> where the
  call throws (the source ignores the keywords then).
\<close>

definition paper_text :: "(string \<Rightarrow> string option) \<Rightarrow> paper \<Rightarrow> string" where
  "paper_text joinKeywords p =
     (let fallback =
        (case keywords_json p of
           None \<Rightarrow> title p
         | Some k \<Rightarrow>
             if k = [] then title p
             else (case joinKeywords k of
                     Some joined \<Rightarrow> title p @ '' '' @ joined
                   | None \<Rightarrow> title p))
      in case abstract p of
           None \<Rightarrow> fallback
         | Some a \<Rightarrow> if a = [] then fallback else title p @ '' '' @ a)"

text \<open>\<^verbatim>\<open>tf.set(token, (tf.get(token) ?? 0) + 1)\<close> for every token.\<close>

definition count_tokens :: "string list \<Rightarrow> (string \<times> nat) list" where
  "count_tokens tokens =
     fold (\<lambda>token tf. map_set token ((case map_of tf token of Some c \<Rightarrow> c | None \<Rightarrow> 0) + 1) tf)
       tokens []"

text \<open>\<^verbatim>\<open>Math.max(...tf.values())\<close>; the counts are positive and \<open>tf\<close> is not empty where
  it is called.\<close>

definition max_count :: "(string \<times> nat) list \<Rightarrow> nat" where
  "max_count tf = fold max (map snd tf) 0"

definition normalize_tf :: "(string \<times> nat) list \<Rightarrow> (string \<times> real) list" where
  "normalize_tf tf = map (\<lambda>(term, count). (term, real count / real (max_count tf))) tf"

text \<open>\<^verbatim>\<open>for (const term of new Set(tokens)) df.set(term, (df.get(term) ?? 0) + 1)\<close>.\<close>

definition update_df :: "string list \<Rightarrow> (string \<times> nat) list \<Rightarrow> (string \<times> nat) list" where
  "update_df tokens df0 =
     fold (\<lambda>term d. map_set term ((case map_of d term of Some c \<Rightarrow> c | None \<Rightarrow> 0) + 1) d)
       (fold set_add tokens []) df0"

text \<open>The body of the loop over the papers: the state is the pair of \<^verbatim>\<open>documents\<close> and
  \<^verbatim>\<open>df\<close>.\<close>

definition corpus_step ::
  "(string \<Rightarrow> string option) \<Rightarrow> paper \<Rightarrow>
   (string \<times> (string \<times> real) list) list \<times> (string \<times> nat) list \<Rightarrow>
   (string \<times> (string \<times> real) list) list \<times> (string \<times> nat) list" where
  "corpus_step joinKeywords p st =
     (let tokens = tokenize (paper_text joinKeywords p) in
      if tokens = [] then st
      else (map_set (doc_id p) (normalize_tf (count_tokens tokens)) (fst st),
            update_df tokens (snd st)))"

text \<open>The second pass: \<^verbatim>\<open>docTf.set(term, tf * Math.log(N / (df.get(term) ?? 1)))\<close>.\<close>

definition tfidf_weights ::
  "nat \<Rightarrow> (string \<times> nat) list \<Rightarrow> (string \<times> real) list \<Rightarrow> (string \<times> real) list" where
  "tfidf_weights N d docTf =
     map (\<lambda>(term, tf).
        (term, tf * ln (real N / real (case map_of d term of Some c \<Rightarrow> c | None \<Rightarrow> 1)))) docTf"

definition buildCorpus :: "(string \<Rightarrow> string option) \<Rightarrow> paper list \<Rightarrow> TfIdfCorpus" where
  "buildCorpus joinKeywords ps =
     (let st = fold (corpus_step joinKeywords) ps ([], []);
          N = length (fst st)
      in \<lparr>documents = map (\<lambda>(id, docTf). (id, tfidf_weights N (snd st) docTf)) (fst st),
          df = snd st,
          corpus_size = N\<rparr>)"

text \<open>\<^verbatim>\<open>computeRelevance\<close>: the mean weight of the query tokens in the document, capped
  at 1.\<close>

definition computeRelevance :: "TfIdfCorpus \<Rightarrow> string \<Rightarrow> string list \<Rightarrow> real" where
  "computeRelevance corpus docId queryTokens =
     (case map_of (documents corpus) docId of
        None \<Rightarrow> 0
      | Some docVector \<Rightarrow>
          if queryTokens = [] then 0
          else min 1 (fold (\<lambda>token score.
                              score + (case map_of docVector token of Some w \<Rightarrow> w | None \<Rightarrow> 0))
                        queryTokens 0
                      / real (length queryTokens)))"

section \<open>Cosine similarity and the similarity edges (nlp/similarity.ts)\<close>

text \<open>
  \<^verbatim>\<open>cosineSimilarity\<close>. A vector is a \<^verbatim>\<open>Map\<close> from terms to finite numbers, in insertion
  order. Every operation rounds as JavaScript does. The dot product runs over the vector
  with fewer entries, the first one when both have the same size, and looks each term up
  in the other; the products are added in the order of the iterated vector. The source
  first accumulates two norms inside these loops and then overwrites both (``Recompute
  normA fully from vecA, normB from vecB''); the model has the recomputed norms only.
\<close>

definition dot_product :: "(string \<times> real) list \<Rightarrow> (string \<times> real) list \<Rightarrow> jsnum" where
  "dot_product smaller larger =
     fold (\<lambda>(term, weightA) dotProduct.
             case map_of larger term of
               Some weightB \<Rightarrow> js_add dotProduct (js_mul (Fin weightA) (Fin weightB))
             | None \<Rightarrow> dotProduct) smaller (Fin 0)"

definition norm_sq :: "(string \<times> real) list \<Rightarrow> jsnum" where
  "norm_sq vec = fold (\<lambda>(term, w) n. js_add n (js_mul (Fin w) (Fin w))) vec (Fin 0)"

definition cosineSimilarity :: "(string \<times> real) list \<Rightarrow> (string \<times> real) list \<Rightarrow> jsnum" where
  "cosineSimilarity vecA vecB =
     (if length vecA = 0 \<or> length vecB = 0 then Fin 0
      else let dotProduct = (if length vecA \<le> length vecB then dot_product vecA vecB
                             else dot_product vecB vecA);
               denominator = js_mul (js_sqrt (norm_sq vecA)) (js_sqrt (norm_sq vecB))
           in if denominator = Fin 0 then Fin 0 else js_div dotProduct denominator)"

text \<open>\<^verbatim>\<open>Array.prototype.slice(0, k)\<close> for an integer \<open>k\<close>: a negative \<open>k\<close> counts from the
  end.\<close>

definition slice0 :: "int \<Rightarrow> 'a list \<Rightarrow> 'a list" where
  "slice0 k xs = (if k < 0 then take (nat (int (length xs) + k)) xs else take (nat k) xs)"

text \<open>
  \<^verbatim>\<open>findTopKSimilar\<close>. A similarity that passes \<^verbatim>\<open>sim >= threshold\<close> is finite or
  \<^verbatim>\<open>Infinity\<close>. On such values the comparator \<^verbatim>\<open>b.similarity - a.similarity\<close> is positive,
  negative or zero as \<open>b\<close> is greater than, less than or equal to \<open>a\<close> (the difference of
  two infinities is \<^verbatim>\<open>NaN\<close>, which the sort reads as zero), and the sort is stable: it is
  the stable sort by the key \<open>descending\<close>, in which \<open>None\<close> comes first.
\<close>

fun descending :: "jsnum \<Rightarrow> real option" where
  "descending (Fin a) = Some (- a)"
| "descending x = None"

definition findTopKSimilar ::
  "string \<Rightarrow> TfIdfCorpus \<Rightarrow> int \<Rightarrow> real \<Rightarrow> (string \<times> jsnum) list" where
  "findTopKSimilar docId corpus k threshold =
     (case map_of (documents corpus) docId of
        None \<Rightarrow> []
      | Some docVector \<Rightarrow>
          slice0 k
            (sort_key (\<lambda>n. descending (snd n))
               (filter (\<lambda>n. js_ge (snd n) threshold)
                  (map (\<lambda>(otherId, otherVector). (otherId, cosineSimilarity docVector otherVector))
                     (filter (\<lambda>(otherId, otherVector). otherId \<noteq> docId) (documents corpus))))))"

text \<open>
  \<^verbatim>\<open>buildSimilarityEdges\<close>. The pair key \<^verbatim>\<open>[min, max].join('-')\<close> is one-to-one on pairs of
  natural numbers and is modelled by the pair. The loop state is the list of edges and
  the set \<^verbatim>\<open>seenPairs\<close>.
\<close>

definition similarity_edge :: "nat \<Rightarrow> nat \<Rightarrow> jsnum \<Rightarrow> int \<Rightarrow> real \<Rightarrow> edge" where
  "similarity_edge paperId neighborPaperId similarity topK threshold =
     \<lparr>src_paper_id = paperId, dst_paper_id = neighborPaperId, type = SIMILAR_TEXT,
      weight = similarity, confidence = similarity, rationale = None, evidence = None,
      created_by = algo,
      provenance_json = JObj [(''source'', JStr ''tfidf''), (''version'', JStr ''1.0.0''),
                              (''topK'', JNum (real_of_int topK)), (''threshold'', JNum threshold)]\<rparr>"

definition neighbor_step ::
  "(string \<times> nat) list \<Rightarrow> nat \<Rightarrow> int \<Rightarrow> real \<Rightarrow> string \<times> jsnum \<Rightarrow>
   edge list \<times> (nat \<times> nat) set \<Rightarrow> edge list \<times> (nat \<times> nat) set" where
  "neighbor_step paperIdMap paperId topK threshold neighbor st =
     (case map_of paperIdMap (fst neighbor) of
        None \<Rightarrow> st
      | Some neighborPaperId \<Rightarrow>
          let pairKey = (min paperId neighborPaperId, max paperId neighborPaperId) in
          if pairKey \<in> snd st then st
          else (fst st @ [similarity_edge paperId neighborPaperId (snd neighbor) topK threshold],
                insert pairKey (snd st)))"

definition buildSimilarityEdges ::
  "(string \<times> nat) list \<Rightarrow> TfIdfCorpus \<Rightarrow> int \<Rightarrow> real \<Rightarrow> edge list" where
  "buildSimilarityEdges paperIdMap corpus topK threshold =
     fst (fold (\<lambda>(sourceId, paperId) st.
                  fold (neighbor_step paperIdMap paperId topK threshold)
                    (findTopKSimilar sourceId corpus topK threshold) st)
            paperIdMap ([], {}))"

text \<open>Values for the examples: no keyword list parses, and two papers without abstracts
  whose titles are single words.\<close>

definition no_keywords :: "string \<Rightarrow> string option" where
  "no_keywords k = None"

definition paper_alpha :: paper where
  "paper_alpha = test_paper\<lparr>source_id := ''W1'', title := ''Alpha''\<rparr>"

definition paper_beta :: paper where
  "paper_beta = test_paper\<lparr>source_id := ''W2'', title := ''Beta''\<rparr>"

text \<open>Two weights out of the ordinary: the square of the first rounds to zero, the
  square of the second is beyond the largest finite number.\<close>

definition tiny_weight :: real where
  "tiny_weight = 1 / 2 ^ 540"

definition huge_weight :: real where
  "huge_weight = 2 ^ 600"

text \<open>The terms of \<open>a\<close> that \<open>b\<close> has too, in the order of \<open>a\<close>: the order in which
  \<open>dot_product a b\<close> adds the products.\<close>

definition shared_terms :: "(string \<times> real) list \<Rightarrow> (string \<times> real) list \<Rightarrow> string list" where
  "shared_terms a b = filter (\<lambda>t. map_of b t \<noteq> None) (map fst a)"

section \<open>Citation-analytic edges (graph/algorithms.ts)\<close>

text \<open>
  Both functions first group the \<^verbatim>\<open>CITES\<close> edges by citing paper: a
  \<^verbatim>\<open>Map<number, Set<number>>\<close> from the citing paper to the set of papers it cites, both in
  insertion order.
\<close>

definition cites_refs :: "edge list \<Rightarrow> (nat \<times> nat list) list" where
  "cites_refs es =
     fold (\<lambda>e m. map_set (src_paper_id e)
                    (set_add (dst_paper_id e)
                       (case map_of m (src_paper_id e) of Some refs \<Rightarrow> refs | None \<Rightarrow> [])) m)
       (filter (\<lambda>e. type e = CITES) es) []"

text \<open>The double loop \<^verbatim>\<open>for i; for j = i + 1\<close> over \<^verbatim>\<open>refArray\<close>, with the pair
  \<^verbatim>\<open>(Math.min, Math.max)\<close> of each two elements. The key \<^verbatim>\<open>`${a}-${b}`\<close> and its parse
  \<^verbatim>\<open>key.split('-').map(Number)\<close> are one-to-one on natural numbers and are modelled by the
  pair.\<close>

fun ref_pairs :: "nat list \<Rightarrow> (nat \<times> nat) list" where
  "ref_pairs [] = []"
| "ref_pairs (x # xs) = map (\<lambda>y. (min x y, max x y)) xs @ ref_pairs xs"

definition pair_counts :: "(nat \<times> nat list) list \<Rightarrow> ((nat \<times> nat) \<times> nat) list" where
  "pair_counts citingToRefs =
     fold (\<lambda>key m. map_set key ((case map_of m key of Some c \<Rightarrow> c | None \<Rightarrow> 0) + 1) m)
       (concat (map (\<lambda>(citer, refs). ref_pairs refs) citingToRefs)) []"

definition cocitation_edge :: "nat \<Rightarrow> (nat \<times> nat) \<times> nat \<Rightarrow> edge" where
  "cocitation_edge maxCount kc =
     \<lparr>src_paper_id = fst (fst kc), dst_paper_id = snd (fst kc), type = CO_CITED,
      weight = js_div (Fin (real (snd kc))) (Fin (real maxCount)), confidence = Fin 1, rationale = None,
      evidence = None, created_by = algo,
      provenance_json = JObj [(''source'', JStr ''co-citation''), (''count'', JNum (real (snd kc)))]\<rparr>"

definition computeCoCitation :: "edge list \<Rightarrow> edge list" where
  "computeCoCitation es =
     (let pairCounts = pair_counts (cites_refs es);
          maxCount = fold max (map snd pairCounts) 1
      in map (cocitation_edge maxCount) pairCounts)"

text \<open>\<^verbatim>\<open>computeBibCoupling\<close>: the inner loop body for the papers \<open>a\<close> and \<open>b\<close>.\<close>

definition coupling_edge :: "nat \<Rightarrow> nat list \<Rightarrow> nat \<times> nat list \<Rightarrow> edge list" where
  "coupling_edge a refsA pb =
     (if length (snd pb) = 0 then []
      else let overlap = length (filter (\<lambda>ref. ref \<in> set (snd pb)) refsA) in
           if overlap = 0 then []
           else [\<lparr>src_paper_id = a, dst_paper_id = fst pb, type = BIB_COUPLED,
                   weight = js_div (Fin (real overlap))
                              (Fin (real (min (length refsA) (length (snd pb))))),
                   confidence = Fin 1, rationale = None, evidence = None, created_by = algo,
                   provenance_json = JObj [(''source'', JStr ''bib-coupling''),
                      (''overlap'', JNum (real overlap)),
                      (''refsA'', JNum (real (length refsA))),
                      (''refsB'', JNum (real (length (snd pb))))]\<rparr>])"

fun coupling_loop :: "(nat \<times> nat list) list \<Rightarrow> edge list" where
  "coupling_loop [] = []"
| "coupling_loop ((a, refsA) # rest) =
     (if length refsA = 0 then []
      else concat (map (coupling_edge a refsA) rest)) @ coupling_loop rest"

definition computeBibCoupling :: "edge list \<Rightarrow> edge list" where
  "computeBibCoupling es = coupling_loop (cites_refs es)"

text \<open>The unordered pair of an edge's endpoints.\<close>

definition unordered_pair :: "edge \<Rightarrow> nat \<times> nat" where
  "unordered_pair e =
     (min (src_paper_id e) (dst_paper_id e), max (src_paper_id e) (dst_paper_id e))"

text \<open>The citing papers of an edge list, each once, in the order in which they first
  cite; and the relation that \<open>x\<close> comes before \<open>y\<close> in a list.\<close>

definition first_citers :: "edge list \<Rightarrow> nat list" where
  "first_citers es = fold set_add (map src_paper_id (filter (\<lambda>e. type e = CITES) es)) []"

definition precedes :: "'a \<Rightarrow> 'a \<Rightarrow> 'a list \<Rightarrow> bool" where
  "precedes x y xs = (y \<in> set (drop 1 (dropWhile (\<lambda>z. z \<noteq> x) xs)))"

text \<open>Values for the examples: a \<^verbatim>\<open>CITES\<close> edge as the traversal emits it, and a hand-made
  corpus of three documents with the cosines 24/25, 4/5 and 3/5.\<close>

definition cites_edge :: "nat \<Rightarrow> nat \<Rightarrow> edge" where
  "cites_edge a b =
     \<lparr>src_paper_id = a, dst_paper_id = b, type = CITES, weight = Fin 1, confidence = Fin 1,
      rationale = None, evidence = None, created_by = algo, provenance_json = JObj []\<rparr>"

definition three_docs :: TfIdfCorpus where
  "three_docs =
     \<lparr>documents = [(''A'', [(''x'', 3), (''y'', 4)]), (''B'', [(''y'', 1)]),
                   (''C'', [(''x'', 4), (''y'', 3)])],
      df = [(''x'', 2), (''y'', 3)], corpus_size = 3\<rparr>"

text \<open>For the proofs: the invariant of the loops of \<open>buildSimilarityEdges\<close> (the edges
  have pairwise different unordered pairs, all of them in \<^verbatim>\<open>seenPairs\<close>), and the
  well-formedness of the grouped references (each reference set has no repetition).\<close>

definition sim_inv :: "edge list \<times> (nat \<times> nat) set \<Rightarrow> bool" where
  "sim_inv st = (distinct (map unordered_pair (fst st)) \<and> unordered_pair ` set (fst st) \<subseteq> snd st
     \<and> list_all (\<lambda>e. type e = SIMILAR_TEXT) (fst st))"

definition refs_ok :: "(nat \<times> nat list) list \<Rightarrow> bool" where
  "refs_ok m = list_all (\<lambda>kv. distinct (snd kv)) m"


section \<open>The composite scorer (graph/scoring.ts)\<close>

record ScoringWeights =
  pagerankWeight :: real
  relevanceWeight :: real
  recencyWeight :: real

definition DEFAULT_WEIGHTS :: ScoringWeights where
  "DEFAULT_WEIGHTS = \<lparr>pagerankWeight = 1 / 2, relevanceWeight = 3 / 10, recencyWeight = 2 / 10\<rparr>"

text \<open>
  A score is a JavaScript number. The arithmetic of the scorer is modelled on the reals;
  the values that are not real numbers are kept apart, because \<^verbatim>\<open>Math.min()\<close> of no
  argument is \<^verbatim>\<open>Infinity\<close> and the source then computes with it.
\<close>

text \<open>\<^verbatim>\<open>p.year ?? currentYear\<close>.\<close>

definition year_or :: "int \<Rightarrow> paper \<Rightarrow> int" where
  "year_or currentYear p = (case year p of Some y \<Rightarrow> y | None \<Rightarrow> currentYear)"

text \<open>\<^verbatim>\<open>Math.min(...papers.map((p) => p.year ?? currentYear).filter((y) => y > 1900))\<close>;
  \<open>None\<close> is \<^verbatim>\<open>Infinity\<close>.\<close>

definition oldest_year :: "int \<Rightarrow> paper list \<Rightarrow> int option" where
  "oldest_year currentYear ps =
     (case filter (\<lambda>y. y > 1900) (map (year_or currentYear) ps) of
        [] \<Rightarrow> None
      | y # ys \<Rightarrow> Some (fold min ys y))"

text \<open>\<^verbatim>\<open>Math.max(0.001, ...pagerankScores.values())\<close>.\<close>

definition max_pagerank :: "(nat \<times> real) list \<Rightarrow> real" where
  "max_pagerank pagerankScores = fold max (map snd pagerankScores) (1 / 1000)"

text \<open>\<^verbatim>\<open>topic ? tokenize(topic) : []\<close>.\<close>

definition query_tokens :: "string option \<Rightarrow> string list" where
  "query_tokens topic =
     (case topic of None \<Rightarrow> [] | Some t \<Rightarrow> if t = [] then [] else tokenize t)"

text \<open>
  The body of the loop for a paper whose \<open>paper_id\<close> is defined. With a finite oldest year
  the score is \<^verbatim>\<open>Math.min(1.0, composite)\<close>. With \<^verbatim>\<open>oldestYear = Infinity\<close> the year range is
  \<^verbatim>\<open>Math.max(1, -Infinity) = 1\<close> and the recency is \<^verbatim>\<open>-Infinity\<close>, so the composite is
  \<^verbatim>\<open>-Infinity\<close>, \<^verbatim>\<open>NaN\<close> or \<^verbatim>\<open>Infinity\<close> by the sign of the recency weight.
\<close>

definition composite_score ::
  "(nat \<times> real) list \<Rightarrow> TfIdfCorpus \<Rightarrow> string list \<Rightarrow> ScoringWeights \<Rightarrow> int \<Rightarrow>
   int option \<Rightarrow> nat \<Rightarrow> paper \<Rightarrow> jsnum" where
  "composite_score pagerankScores corpus queryTokens weights currentYear oldestYear pid p =
     (let pr = (case map_of pagerankScores pid of Some s \<Rightarrow> s | None \<Rightarrow> 0)
               / max_pagerank pagerankScores;
          sourceId = (if source_id p \<noteq> [] then source_id p else string_of_nat pid);
          relevance = (if length queryTokens > 0
                       then computeRelevance corpus sourceId queryTokens else 0);
          paperYear = year_or currentYear p
      in case oldestYear of
           Some oldest \<Rightarrow>
             let yearRange = max 1 (currentYear - oldest);
                 recency = (if yearRange > 0
                            then real_of_int (paperYear - oldest) / real_of_int yearRange
                            else 1 / 2);
                 composite = pr * pagerankWeight weights + relevance * relevanceWeight weights
                             + recency * recencyWeight weights
             in Fin (min 1 composite)
         | None \<Rightarrow>
             if recencyWeight weights > 0 then NegInfinity
             else if recencyWeight weights = 0 then NaN
             else Fin 1)"

definition computeCompositeScores ::
  "paper list \<Rightarrow> (nat \<times> real) list \<Rightarrow> TfIdfCorpus \<Rightarrow> string option \<Rightarrow> ScoringWeights \<Rightarrow>
   int \<Rightarrow> (nat \<times> jsnum) list" where
  "computeCompositeScores ps pagerankScores corpus topic weights currentYear =
     (let oldestYear = oldest_year currentYear ps;
          queryTokens = query_tokens topic
      in fold (\<lambda>p scores.
                 case paper_id p of
                   None \<Rightarrow> scores
                 | Some pid \<Rightarrow>
                     map_set pid
                       (composite_score pagerankScores corpus queryTokens weights currentYear
                          oldestYear pid p) scores)
           ps [])"

text \<open>Values for the examples: an empty corpus, and papers of the years 1850 and 2000.\<close>

definition empty_corpus :: TfIdfCorpus where
  "empty_corpus = \<lparr>documents = [], df = [], corpus_size = 0\<rparr>"

definition paper_1850 :: paper where
  "paper_1850 = test_paper\<lparr>paper_id := Some 1, source_id := ''W1'', year := Some 1850\<rparr>"

definition paper_2000 :: paper where
  "paper_2000 = test_paper\<lparr>paper_id := Some 2, source_id := ''W2'', year := Some 2000\<rparr>"

definition paper_undated :: paper where
  "paper_undated = test_paper\<lparr>paper_id := Some 3, source_id := ''W3'', year := None\<rparr>"

text \<open>The specification's \<open>year_min\<close>: the minimum year across all papers with
  year \<open>> 1900\<close>, a null year counting as the current year.\<close>

definition year_min :: "int \<Rightarrow> paper list \<Rightarrow> int" where
  "year_min currentYear ps = Min {y \<in> year_or currentYear ` set ps. 1900 < y}"

section \<open>The build orchestrator (builder/graph-builder.ts)\<close>

subsection \<open>Configuration, collaborators and the log\<close>

datatype SpineType = Citation | Similarity | CoCitation | Coupling | Hybrid

datatype SourceTag = SrcOpenAlex | SrcS2 | SrcMixed

record SimilarityConfig =
  enabled :: bool
  topK :: int
  threshold :: real

text \<open>
  The fields of \<^verbatim>\<open>PaperGraphConfig\<close> that \<^verbatim>\<open>buildGraph\<close> reads. \<open>paper_titles\<close>, \<open>dois\<close> and
  \<open>cfg_source\<close> stand for \<^verbatim>\<open>config.paper\<close>, \<^verbatim>\<open>config.doi\<close> and \<^verbatim>\<open>config.source\<close>. The numbers
  \<^verbatim>\<open>depth\<close>, \<^verbatim>\<open>maxPapers\<close> and \<^verbatim>\<open>maxRefsPerPaper\<close> come from \<^verbatim>\<open>parseInt\<close> and are integers.
\<close>

record PaperGraphConfig =
  topic :: "string option"
  paper_titles :: "string list option"
  dois :: "string list option"
  cfg_source :: SourceTag
  spine :: SpineType
  depth :: int
  maxPapers :: int
  maxRefsPerPaper :: int
  out :: string
  similarity :: "SimilarityConfig option"
  ranking :: "ScoringWeights option"

text \<open>
  The interface \<^verbatim>\<open>SourceAdapter\<close>. Every operation is a remote call: its first argument
  is the number of adapter calls made so far in the build, so that the answers may
  differ from call to call. \<open>None\<close> is a rejected promise (the call throws);
  \<open>fetchPaper\<close> answers \<open>Some None\<close> for \<^verbatim>\<open>null\<close>.
\<close>

record SourceAdapter =
  searchByTopic :: "nat \<Rightarrow> string \<Rightarrow> int \<Rightarrow> paper list option"
  searchByTitle :: "nat \<Rightarrow> string \<Rightarrow> int \<Rightarrow> paper list option"
  fetchPaper :: "nat \<Rightarrow> string \<Rightarrow> paper option option"
  fetchReferences :: "nat \<Rightarrow> string \<Rightarrow> int \<Rightarrow> paper list option"

text \<open>
  What the build takes from outside the repository: the two adapters over the network,
  \<^verbatim>\<open>JSON.parse\<close>/\<^verbatim>\<open>JSON.stringify\<close>, the graphology library (PageRank, which throws when it
  does not converge, and Louvain on the undirected projection) and the clock.
\<close>

record externals =
  openalex_adapter :: SourceAdapter
  s2_adapter :: SourceAdapter
  joinKeywords :: "string \<Rightarrow> string option"
  pagerank_lib :: "nat list \<Rightarrow> (nat \<times> nat) list \<Rightarrow> (nat \<times> real) list option"
  louvain_lib :: "nat list \<Rightarrow> ((nat \<times> nat) \<times> jsnum) list \<Rightarrow> (nat \<times> nat) list"
  now_iso :: string
  stringify_config :: "PaperGraphConfig \<Rightarrow> string"
  stringify_stats :: "stats \<Rightarrow> string"

definition getSourceAdapter :: "externals \<Rightarrow> PaperGraphConfig \<Rightarrow> SourceAdapter" where
  "getSourceAdapter ext config =
     (case cfg_source config of SrcS2 \<Rightarrow> s2_adapter ext | _ \<Rightarrow> openalex_adapter ext)"

text \<open>The calls of the builder's logger, by level and message.\<close>

datatype log_event =
    Starting_graph_build
  | Seeds_found nat
  | No_seed_papers_found_nothing_to_build
  | Starting_depth_traversal int
  | Failed_to_traverse_paper string
  | Citation_depth_traversed int
  | Papers_in_database nat
  | TFIDF_corpus_built nat
  | Similarity_edges_added nat
  | Co_citation_edges_added nat
  | Bib_coupling_edges_added nat
  | PageRank_computed nat
  | Clusters_stored nat
  | Graph_build_complete

datatype log_entry = Info log_event | Warn log_event

datatype build_error =
    Seed_search_failed
  | Node_exists
  | PageRank_failed
  | Self_loop_forbidden nat

subsection \<open>Seeding\<close>

text \<open>
  \<^verbatim>\<open>Math.max(10, Math.min(Math.floor(config.maxPapers * 0.4), 200))\<close>. For an integer
  \<open>n\<close> the double product \<open>n * 0.4\<close> has the floor of \<open>2 n / 5\<close>.
\<close>

definition seedLimit :: "PaperGraphConfig \<Rightarrow> int" where
  "seedLimit config = max 10 (min ((2 * maxPapers config) div 5) 200)"

text \<open>The closure \<^verbatim>\<open>addUnique\<close> on the pair of \<^verbatim>\<open>papers\<close> and \<^verbatim>\<open>seen\<close>. The key
  \<^verbatim>\<open>`${paper.source}:${paper.source_id}`\<close> is one-to-one on the pair, since a source tag has
  no colon.\<close>

definition addUnique ::
  "paper \<Rightarrow> paper list \<times> (PaperSource \<times> string) set \<Rightarrow> paper list \<times> (PaperSource \<times> string) set" where
  "addUnique p st =
     (if (source p, source_id p) \<in> snd st then st
      else (fst st @ [p], insert (source p, source_id p) (snd st)))"

text \<open>The state of \<^verbatim>\<open>findSeeds\<close>: the seeds so far with the \<^verbatim>\<open>seen\<close> set, and the number
  of adapter calls made. A failed search ends it.\<close>

type_synonym seed_state = "(paper list \<times> (PaperSource \<times> string) set) \<times> nat"

definition seeds_by_topic ::
  "SourceAdapter \<Rightarrow> PaperGraphConfig \<Rightarrow> seed_state \<Rightarrow> seed_state option" where
  "seeds_by_topic adapter config st =
     (case topic config of
        None \<Rightarrow> Some st
      | Some t \<Rightarrow>
          if t = [] then Some st
          else (case searchByTopic adapter (snd st) t (seedLimit config) of
                  None \<Rightarrow> None
                | Some results \<Rightarrow> Some (fold addUnique results (fst st), snd st + 1)))"

fun seeds_by_title :: "SourceAdapter \<Rightarrow> string list \<Rightarrow> seed_state \<Rightarrow> seed_state option" where
  "seeds_by_title adapter [] st = Some st"
| "seeds_by_title adapter (t # ts) st =
     (case searchByTitle adapter (snd st) t 5 of
        None \<Rightarrow> None
      | Some results \<Rightarrow>
          seeds_by_title adapter ts
            (case results of [] \<Rightarrow> fst st | r # rs \<Rightarrow> addUnique r (fst st), snd st + 1))"

fun seeds_by_doi :: "SourceAdapter \<Rightarrow> string list \<Rightarrow> seed_state \<Rightarrow> seed_state option" where
  "seeds_by_doi adapter [] st = Some st"
| "seeds_by_doi adapter (d # ds) st =
     (case fetchPaper adapter (snd st) d of
        None \<Rightarrow> None
      | Some found \<Rightarrow>
          seeds_by_doi adapter ds
            (case found of None \<Rightarrow> fst st | Some p \<Rightarrow> addUnique p (fst st), snd st + 1))"

text \<open>\<^verbatim>\<open>findSeeds\<close>: the seeds, cut by \<^verbatim>\<open>papers.slice(0, seedLimit)\<close>, and the number of
  adapter calls made.\<close>

definition findSeeds :: "SourceAdapter \<Rightarrow> PaperGraphConfig \<Rightarrow> (paper list \<times> nat) option" where
  "findSeeds adapter config =
     (case seeds_by_topic adapter config (([], {}), 0) of
        None \<Rightarrow> None
      | Some st1 \<Rightarrow>
          (case seeds_by_title adapter
                  (case paper_titles config of None \<Rightarrow> [] | Some ts \<Rightarrow> ts) st1 of
             None \<Rightarrow> None
           | Some st2 \<Rightarrow>
               (case seeds_by_doi adapter (case dois config of None \<Rightarrow> [] | Some ds \<Rightarrow> ds) st2 of
                  None \<Rightarrow> None
                | Some st3 \<Rightarrow> Some (slice0 (seedLimit config) (fst (fst st3)), snd st3))))"

subsection \<open>The breadth-first traversal\<close>

text \<open>The local state of \<^verbatim>\<open>traverseCitations\<close> together with the store, the number of
  adapter calls and the log. The edge key \<^verbatim>\<open>`${a}->${b}`\<close> is modelled by the pair.\<close>

record trav_state =
  t_db :: database
  visited :: "(PaperSource \<times> string) set"
  edgeSeen :: "(nat \<times> nat) set"
  allEdges :: "edge list"
  nextFrontier :: "paper list"
  t_calls :: nat
  t_log :: "log_entry list"

definition source_name :: "PaperSource \<Rightarrow> string" where
  "source_name s = (case s of OpenAlex \<Rightarrow> ''openalex'' | S2 \<Rightarrow> ''s2'')"

definition traversal_edge :: "paper \<Rightarrow> nat \<Rightarrow> nat \<Rightarrow> int \<Rightarrow> edge" where
  "traversal_edge citer src dst d =
     \<lparr>src_paper_id = src, dst_paper_id = dst, type = CITES, weight = Fin 1, confidence = Fin 1,
      rationale = None, evidence = None, created_by = algo,
      provenance_json = JObj [(''source'', JStr (source_name (source citer))),
                              (''depth'', JNum (real_of_int d))]\<rparr>"

text \<open>The shared tail of both branches: emit and persist the edge unless its key has
  been seen.\<close>

definition emit_edge :: "paper \<Rightarrow> nat \<Rightarrow> nat \<Rightarrow> int \<Rightarrow> trav_state \<Rightarrow> trav_state" where
  "emit_edge citer src dst d st =
     (if (src, dst) \<in> edgeSeen st then st
      else st\<lparr>edgeSeen := insert (src, dst) (edgeSeen st),
              t_db := insertEdges [traversal_edge citer src dst d] (t_db st),
              allEdges := allEdges st @ [traversal_edge citer src dst d]\<rparr>)"

text \<open>The body of \<^verbatim>\<open>for (const ref of refs)\<close> for the frontier paper \<open>citer\<close> with id
  \<open>pid\<close>. First the lookup \<^verbatim>\<open>existingPaper && existingPaper.paper_id !== undefined\<close>.\<close>

definition existing_id :: "database \<Rightarrow> paper \<Rightarrow> nat option" where
  "existing_id db ref =
     (case getPaperBySourceId db (source ref) (source_id ref) of
        Some existingPaper \<Rightarrow> paper_id existingPaper
      | None \<Rightarrow> None)"

text \<open>The branch ``new paper and we have room'': mark it visited, insert it, emit the
  edge and push it on the next frontier when \<^verbatim>\<open>insertPapers\<close> returned an id.\<close>

definition add_new_paper :: "paper \<Rightarrow> nat \<Rightarrow> int \<Rightarrow> paper \<Rightarrow> trav_state \<Rightarrow> trav_state" where
  "add_new_paper citer pid d ref st =
     (let ins = insertPapers [ref] (t_db st);
          st2 = st\<lparr>visited := insert (source ref, source_id ref) (visited st), t_db := fst ins\<rparr>
      in case snd ins of
           [] \<Rightarrow> st2
         | refId # rest \<Rightarrow>
             (let st3 = emit_edge citer pid refId d st2
              in st3\<lparr>nextFrontier := nextFrontier st3 @ [ref\<lparr>paper_id := Some refId\<rparr>]\<rparr>))"

definition process_ref ::
  "PaperGraphConfig \<Rightarrow> paper \<Rightarrow> nat \<Rightarrow> int \<Rightarrow> bool \<Rightarrow> paper \<Rightarrow> trav_state \<Rightarrow> trav_state" where
  "process_ref config citer pid d atCapacity ref st =
     (case existing_id (t_db st) ref of
        Some dst \<Rightarrow> emit_edge citer pid dst d st
      | None \<Rightarrow>
          if (source ref, source_id ref) \<notin> visited st \<and> \<not> atCapacity
             \<and> int (getPaperCount (t_db st)) < maxPapers config
          then add_new_paper citer pid d ref st
          else st)"

text \<open>The body of \<^verbatim>\<open>for (const paper of frontier)\<close>, with its \<^verbatim>\<open>try\<close>/\<^verbatim>\<open>catch\<close> around the
  fetch.\<close>

definition process_paper ::
  "SourceAdapter \<Rightarrow> PaperGraphConfig \<Rightarrow> int \<Rightarrow> bool \<Rightarrow> paper \<Rightarrow> trav_state \<Rightarrow> trav_state" where
  "process_paper adapter config d atCapacity p st =
     (case paper_id p of
        None \<Rightarrow> st
      | Some pid \<Rightarrow>
          (case fetchReferences adapter (t_calls st) (source_id p) (maxRefsPerPaper config) of
             None \<Rightarrow> st\<lparr>t_calls := t_calls st + 1,
                        t_log := t_log st @ [Warn (Failed_to_traverse_paper (source_id p))]\<rparr>
           | Some refs \<Rightarrow>
               fold (process_ref config p pid d atCapacity) refs (st\<lparr>t_calls := t_calls st + 1\<rparr>)))"

text \<open>The loop \<^verbatim>\<open>for (let d = 0; d < depth; d++)\<close> from the value \<open>d\<close> on.\<close>

function traverse_from ::
  "SourceAdapter \<Rightarrow> PaperGraphConfig \<Rightarrow> int \<Rightarrow> paper list \<Rightarrow> trav_state \<Rightarrow> trav_state" where
  "traverse_from adapter config d frontier st =
     (if d < depth config
      then (let atCapacity = (int (getPaperCount (t_db st)) \<ge> maxPapers config);
                st1 = st\<lparr>nextFrontier := [], t_log := t_log st @ [Info (Starting_depth_traversal d)]\<rparr>;
                st2 = fold (process_paper adapter config d atCapacity) frontier st1;
                st3 = st2\<lparr>t_log := t_log st2 @ [Info (Citation_depth_traversed (d + 1))]\<rparr>
            in if nextFrontier st3 = [] then st3
               else traverse_from adapter config (d + 1) (nextFrontier st3) st3)
      else st)"
  by pat_completeness auto
termination
  by (relation "measure (\<lambda>(adapter, config, d, frontier, st). nat (depth config - d))") auto

definition traverseCitations ::
  "SourceAdapter \<Rightarrow> database \<Rightarrow> paper list \<Rightarrow> PaperGraphConfig \<Rightarrow> nat \<Rightarrow> log_entry list \<Rightarrow>
   trav_state" where
  "traverseCitations adapter db seedPapers config calls lg =
     traverse_from adapter config 0 seedPapers
       \<lparr>t_db = db, visited = set (map (\<lambda>p. (source p, source_id p)) seedPapers),
        edgeSeen = {}, allEdges = [], nextFrontier = [], t_calls = calls, t_log = lg\<rparr>"

subsection \<open>Graph algorithms and cluster naming (graph/algorithms.ts, nlp/tfidf.ts)\<close>

text \<open>The node ids of a graphology graph built from the papers; \<^verbatim>\<open>addNode\<close> throws on a
  node that is present.\<close>

definition graph_nodes :: "paper list \<Rightarrow> nat list" where
  "graph_nodes ps = concat (map (\<lambda>p. case paper_id p of Some i \<Rightarrow> [i] | None \<Rightarrow> []) ps)"

text \<open>\<^verbatim>\<open>computePageRank\<close>: the \<^verbatim>\<open>CITES\<close> edges between nodes, each ordered pair once, handed
  to the library.\<close>

definition pagerank_edges :: "nat list \<Rightarrow> edge list \<Rightarrow> (nat \<times> nat) list" where
  "pagerank_edges nodes es =
     fold (\<lambda>e g. if src_paper_id e \<in> set nodes \<and> dst_paper_id e \<in> set nodes
                     \<and> (src_paper_id e, dst_paper_id e) \<notin> set g
                  then g @ [(src_paper_id e, dst_paper_id e)] else g)
       (filter (\<lambda>e. type e = CITES) es) []"

definition computePageRank ::
  "externals \<Rightarrow> paper list \<Rightarrow> edge list \<Rightarrow> build_error + (nat \<times> real) list" where
  "computePageRank ext ps es =
     (if \<not> distinct (graph_nodes ps) then Inl Node_exists
      else case pagerank_lib ext (graph_nodes ps) (pagerank_edges (graph_nodes ps) es) of
             None \<Rightarrow> Inl PageRank_failed
           | Some scores \<Rightarrow> Inr scores)"

text \<open>
  \<^verbatim>\<open>computeLouvainClusters\<close>: the directed graph is created with
  \<^verbatim>\<open>allowSelfLoops: false\<close>, so \<^verbatim>\<open>addEdge\<close> throws on an edge from a node to itself.
\<close>

definition louvain_add_edge ::
  "nat list \<Rightarrow> edge \<Rightarrow> build_error + ((nat \<times> nat) \<times> jsnum) list \<Rightarrow>
   build_error + ((nat \<times> nat) \<times> jsnum) list" where
  "louvain_add_edge nodes e acc =
     (case acc of
        Inl err \<Rightarrow> Inl err
      | Inr g \<Rightarrow>
          if src_paper_id e \<in> set nodes \<and> dst_paper_id e \<in> set nodes
             \<and> (src_paper_id e, dst_paper_id e) \<notin> fst ` set g
          then (if src_paper_id e = dst_paper_id e then Inl (Self_loop_forbidden (src_paper_id e))
                else Inr (g @ [((src_paper_id e, dst_paper_id e), weight e)]))
          else Inr g)"

definition group_communities :: "(nat \<times> nat) list \<Rightarrow> (nat \<times> nat list) list" where
  "group_communities communities =
     fold (\<lambda>(paperId, community) clusterMap.
             map_set community
               ((case map_of clusterMap community of Some ids \<Rightarrow> ids | None \<Rightarrow> []) @ [paperId])
               clusterMap)
       communities []"

definition computeLouvainClusters ::
  "externals \<Rightarrow> paper list \<Rightarrow> edge list \<Rightarrow> build_error + (nat \<times> nat list) list" where
  "computeLouvainClusters ext ps es =
     (if \<not> distinct (graph_nodes ps) then Inl Node_exists
      else case fold (louvain_add_edge (graph_nodes ps)) es (Inr []) of
             Inl err \<Rightarrow> Inl err
           | Inr g \<Rightarrow>
               if length (graph_nodes ps) = 0 then Inr []
               else Inr (group_communities (louvain_lib ext (graph_nodes ps) g)))"

text \<open>\<^verbatim>\<open>getTopTerms\<close>.\<close>

definition getTopTerms :: "TfIdfCorpus \<Rightarrow> string list \<Rightarrow> int \<Rightarrow> string list" where
  "getTopTerms corpus docIds topN =
     map fst (slice0 topN (sort_key (\<lambda>ts. - snd ts)
       (fold (\<lambda>docId termScores.
                case map_of (documents corpus) docId of
                  None \<Rightarrow> termScores
                | Some vector \<Rightarrow>
                    fold (\<lambda>(term, w) m.
                            map_set term ((case map_of m term of Some s \<Rightarrow> s | None \<Rightarrow> 0) + w) m)
                      vector termScores)
          docIds [])))"

fun join_comma :: "string list \<Rightarrow> string" where
  "join_comma [] = []"
| "join_comma [w] = w"
| "join_comma (w # ws) = w @ '', '' @ join_comma ws"

text \<open>The name of a community: \<^verbatim>\<open>top.join(', ') || `Cluster ${communityId}`\<close>.\<close>

definition cluster_name :: "TfIdfCorpus \<Rightarrow> paper list \<Rightarrow> nat \<Rightarrow> nat list \<Rightarrow> string" where
  "cluster_name corpus allPapers communityId paperIds =
     (let sourceIds =
            concat (map (\<lambda>i. case find (\<lambda>p. paper_id p = Some i) allPapers of
                                None \<Rightarrow> []
                              | Some p \<Rightarrow> if source_id p = [] then [] else [source_id p]) paperIds);
          top = join_comma (getTopTerms corpus sourceIds 3)
      in if top = [] then ''Cluster '' @ string_of_nat communityId else top)"

text \<open>\<^verbatim>\<open>buildClusterObjects\<close> with the names computed by the builder.\<close>

definition buildClusterObjects ::
  "(nat \<times> nat list) list \<Rightarrow> (nat \<times> string) list \<Rightarrow> cluster list \<times> (nat \<times> nat list) list" where
  "buildClusterObjects clusterMap clusterNames =
     (map (\<lambda>(communityId, paperIds).
             \<lparr>cluster_method = ''louvain_citation'',
              name = Some (case map_of clusterNames communityId of
                             Some n \<Rightarrow> n
                           | None \<Rightarrow> ''Cluster '' @ string_of_nat communityId),
              description = None,
              cluster_stats = JObj [(''member_count'', JNum (real (length paperIds))),
                                    (''community_id'', JNum (real communityId))]\<rparr>) clusterMap,
      map (\<lambda>(idx, (communityId, paperIds)). (idx, paperIds)) (enumerate 0 clusterMap))"

subsection \<open>\<^verbatim>\<open>buildGraph\<close>\<close>

text \<open>The result of a build: the store as the build leaves it, the log, and the returned
  output path or the error thrown.\<close>

record build_result =
  final_db :: database
  build_log :: "log_entry list"
  outcome :: "build_error + string"

text \<open>\<^verbatim>\<open>seedPapers[i].paper_id = seedIds[i]\<close>; an index past the end of \<^verbatim>\<open>seedIds\<close> reads
  \<^verbatim>\<open>undefined\<close>.\<close>

definition assign_ids :: "paper list \<Rightarrow> nat list \<Rightarrow> paper list" where
  "assign_ids ps ids =
     map (\<lambda>(k, p). p\<lparr>paper_id := (if k < length ids then Some (ids ! k) else None)\<rparr>)
       (enumerate 0 ps)"

definition build_paperIdMap :: "paper list \<Rightarrow> (string \<times> nat) list" where
  "build_paperIdMap allPapers =
     fold (\<lambda>p m. case paper_id p of Some i \<Rightarrow> map_set (source_id p) i m | None \<Rightarrow> m)
       allPapers []"

text \<open>Steps 4 and 5: the analytic edges chosen by the spine.\<close>

definition analytic_edges ::
  "externals \<Rightarrow> PaperGraphConfig \<Rightarrow> TfIdfCorpus \<Rightarrow> paper list \<Rightarrow>
   database \<times> log_entry list \<Rightarrow> database \<times> log_entry list" where
  "analytic_edges ext config corpus allPapers st0 =
     (let st1 =
            (if spine config = Similarity \<or> spine config = Hybrid
             then (let simEdges = buildSimilarityEdges (build_paperIdMap allPapers) corpus
                                    (case similarity config of Some s \<Rightarrow> topK s | None \<Rightarrow> 10)
                                    (case similarity config of Some s \<Rightarrow> threshold s | None \<Rightarrow> 1 / 4)
                   in (insertEdges simEdges (fst st0),
                       snd st0 @ [Info (Similarity_edges_added (length simEdges))]))
             else st0);
          dbEdges = getAllEdges (fst st1);
          st2 =
            (if spine config = CoCitation \<or> spine config = Hybrid
             then (let coCiteEdges = computeCoCitation dbEdges
                   in (insertEdges coCiteEdges (fst st1),
                       snd st1 @ [Info (Co_citation_edges_added (length coCiteEdges))]))
             else st1)
      in if spine config = Coupling \<or> spine config = Hybrid
         then (let couplingEdges = computeBibCoupling dbEdges
               in (insertEdges couplingEdges (fst st2),
                   snd st2 @ [Info (Bib_coupling_edges_added (length couplingEdges))]))
         else st2)"

text \<open>Steps 6 to 8, after the analytic edges. The composite scores of step 7 are
  computed and dropped by the source; they are not part of the result.\<close>

definition rank_and_record ::
  "externals \<Rightarrow> PaperGraphConfig \<Rightarrow> TfIdfCorpus \<Rightarrow> paper list \<Rightarrow>
   database \<times> log_entry list \<Rightarrow> build_result" where
  "rank_and_record ext config corpus allPapers st =
     (let finalEdges = getAllEdges (fst st) in
      case computePageRank ext allPapers finalEdges of
        Inl err \<Rightarrow> \<lparr>final_db = close_db (fst st), build_log = snd st, outcome = Inl err\<rparr>
      | Inr pagerankScores \<Rightarrow>
          (let lg1 = snd st @ [Info (PageRank_computed (length pagerankScores))] in
           case computeLouvainClusters ext allPapers finalEdges of
             Inl err \<Rightarrow> \<lparr>final_db = close_db (fst st), build_log = lg1, outcome = Inl err\<rparr>
           | Inr clusterMap \<Rightarrow>
               (let clusterNames =
                      fold (\<lambda>(communityId, paperIds) m.
                              map_set communityId
                                (cluster_name corpus allPapers communityId paperIds) m)
                        clusterMap [];
                    (cs, paperMappings) = buildClusterObjects clusterMap clusterNames;
                    db1 = insertClusters cs paperMappings (fst st);
                    lg2 = lg1 @ [Info (Clusters_stored (length cs))];
                    db2 = fold (\<lambda>(paperId, pr) db. updatePaperScore paperId pr db)
                            pagerankScores db1;
                    db3 = fst (insertRun
                            \<lparr>created_at = now_iso ext, papergraph_version = ''1.0.0'',
                             config_json = stringify_config ext config,
                             run_source = (case cfg_source config of
                                             SrcOpenAlex \<Rightarrow> ''openalex''
                                           | SrcS2 \<Rightarrow> ''s2'' | SrcMixed \<Rightarrow> ''mixed''),
                             run_spine = (case spine config of
                                            Citation \<Rightarrow> ''citation''
                                          | Similarity \<Rightarrow> ''similarity''
                                          | CoCitation \<Rightarrow> ''co-citation''
                                          | Coupling \<Rightarrow> ''coupling'' | Hybrid \<Rightarrow> ''hybrid''),
                             run_depth = depth config,
                             stats_json = stringify_stats ext (getStats db2)\<rparr> db2)
                in \<lparr>final_db = close_db db3, build_log = lg2 @ [Info Graph_build_complete],
                    outcome = Inr (out config)\<rparr>)))"

text \<open>
  \<^verbatim>\<open>buildGraph\<close>, from the store as \<^verbatim>\<open>new PaperGraphDatabase(config.out)\<close> opens it. Every
  path closes the store: the early return on an empty seed set, the normal end, and the
  \<^verbatim>\<open>catch\<close> that rethrows.
\<close>

definition buildGraph :: "externals \<Rightarrow> PaperGraphConfig \<Rightarrow> database \<Rightarrow> build_result" where
  "buildGraph ext config db =
     (let adapter = getSourceAdapter ext config;
          lg0 = [Info Starting_graph_build]
      in case findSeeds adapter config of
           None \<Rightarrow> \<lparr>final_db = close_db db, build_log = lg0, outcome = Inl Seed_search_failed\<rparr>
         | Some (seeds, calls) \<Rightarrow>
             (let lg1 = lg0 @ [Info (Seeds_found (length seeds))] in
              if length seeds = 0
              then \<lparr>final_db = close_db db,
                    build_log = lg1 @ [Warn No_seed_papers_found_nothing_to_build],
                    outcome = Inr (out config)\<rparr>
              else (let (db1, seedIds) = insertPapers seeds db;
                        seedPapers = assign_ids seeds seedIds;
                        st = traverseCitations adapter db1 seedPapers config calls lg1;
                        allPapers = getAllPapers (t_db st);
                        lg2 = t_log st @ [Info (Papers_in_database (length allPapers))];
                        corpus = buildCorpus (joinKeywords ext) allPapers;
                        lg3 = lg2 @ [Info (TFIDF_corpus_built (corpus_size corpus))]
                    in rank_and_record ext config corpus allPapers
                         (analytic_edges ext config corpus allPapers (t_db st, lg3)))))"

subsection \<open>Values for the examples\<close>

text \<open>Papers that differ in their \<^verbatim>\<open>source_id\<close> only, adapters with fixed answers, a
  library that ranks every node alike and puts all nodes in community 0, and a
  configuration with the defaults of the command line.\<close>

definition numbered :: "string \<Rightarrow> paper" where
  "numbered sid = test_paper\<lparr>source_id := sid\<rparr>"

definition ten_papers :: "paper list" where
  "ten_papers = map numbered
     [''W1'', ''W2'', ''W3'', ''W4'', ''W5'', ''W6'', ''W7'', ''W8'', ''W9'', ''W10'']"

definition silent_adapter :: SourceAdapter where
  "silent_adapter =
     \<lparr>searchByTopic = (\<lambda>calls t limit. Some []),
      searchByTitle = (\<lambda>calls t limit. Some []),
      fetchPaper = (\<lambda>calls d. Some None),
      fetchReferences = (\<lambda>calls sid limit. Some [])\<rparr>"

definition topic_adapter :: "paper list \<Rightarrow> SourceAdapter" where
  "topic_adapter ps = silent_adapter\<lparr>searchByTopic := (\<lambda>calls t limit. Some ps)\<rparr>"

definition self_citing_adapter :: SourceAdapter where
  "self_citing_adapter =
     silent_adapter\<lparr>searchByTopic := (\<lambda>calls t limit. Some [numbered ''W1'']),
                     fetchReferences := (\<lambda>calls sid limit.
                        if sid = ''W1'' then Some [numbered ''W1''] else Some [])\<rparr>"

definition test_ext :: "SourceAdapter \<Rightarrow> externals" where
  "test_ext adapter =
     \<lparr>openalex_adapter = adapter, s2_adapter = adapter, joinKeywords = no_keywords,
      pagerank_lib = (\<lambda>nodes es. Some (map (\<lambda>n. (n, 1 / real (length nodes))) nodes)),
      louvain_lib = (\<lambda>nodes es. map (\<lambda>n. (n, 0)) nodes),
      now_iso = ''2026-01-01T00:00:00.000Z'',
      stringify_config = (\<lambda>c. ''{}''), stringify_stats = (\<lambda>s. ''{}'')\<rparr>"

definition test_config :: PaperGraphConfig where
  "test_config =
     \<lparr>topic = Some ''graphs'', paper_titles = None, dois = None, cfg_source = SrcOpenAlex,
      spine = Citation, depth = 2, maxPapers = 150, maxRefsPerPaper = 40, out = ''graph.db'',
      similarity = None, ranking = None\<rparr>"

text \<open>For the proofs: the capacity invariant of the traversal.\<close>

definition count_le :: "int \<Rightarrow> trav_state \<Rightarrow> bool" where
  "count_le B st = (int (getPaperCount (t_db st)) \<le> B)"

text \<open>A paper whose reference list names the paper itself: the seed \<open>W1\<close> as stored, the
  store after seeding, the edge the traversal emits, and the store after it.\<close>

definition w1 :: paper where
  "w1 = (numbered ''W1'')\<lparr>paper_id := Some 1\<rparr>"

definition db_w1 :: database where
  "db_w1 = empty_db\<lparr>papers := [(1, columns (numbered ''W1''))], lastInsertRowid := 1\<rparr>"

definition self_edge :: edge where
  "self_edge = traversal_edge w1 1 1 0"

definition db_self :: database where
  "db_self = insertEdges [self_edge] db_w1"

section \<open>The HTTP transport and the response cache (utils/http-client.ts, cache/response-cache.ts)\<close>

text \<open>
  The world outside the process, as far as the transport and the cache see it: the
  remote servers, that answer the \<open>n\<close>-th \<^verbatim>\<open>fetch\<close> of the process; the number of fetches
  issued so far; and the files of the cache directory, by file name. A file holds an
  entry \<^verbatim>\<open>{timestamp, url, data}\<close> or text that \<^verbatim>\<open>JSON.parse\<close> rejects.
\<close>

record HttpResponse =
  status :: nat
  headers :: "(string \<times> string) list"
  data :: json
  ok :: bool

datatype fetch_result =
    Responded HttpResponse
  | Threw "string option" bool

datatype cache_file = Entry int string json | Corrupt

datatype request_body = BodyText string | BodyObject json

record fetch_init =
  fetch_method :: string
  fetch_headers :: "(string \<times> string) list"
  fetch_body :: "request_body option"

record world =
  network :: "nat \<Rightarrow> string \<Rightarrow> fetch_init \<Rightarrow> fetch_result"
  fetches :: nat
  files :: "(string \<times> cache_file) list"

text \<open>\<^verbatim>\<open>HttpError(message, status, retryable, response)\<close> without its message.\<close>

datatype HttpError = HttpError nat bool "json option"

definition RETRYABLE_STATUS_CODES :: "nat list" where
  "RETRYABLE_STATUS_CODES = [429, 500, 502, 503, 504]"

definition RETRYABLE_ERROR_CODES :: "string list" where
  "RETRYABLE_ERROR_CODES =
     [''ECONNRESET'', ''ECONNREFUSED'', ''ETIMEDOUT'', ''UND_ERR_SOCKET'',
      ''UND_ERR_CONNECT_TIMEOUT'']"

record HttpRequestOptions =
  opt_method :: "string option"
  opt_headers :: "(string \<times> string) list"
  opt_body :: "request_body option"
  opt_source :: "string option"

text \<open>
  The state of an \<^verbatim>\<open>HttpClient\<close>: the request counters and the user agent. The token
  buckets only delay a request and the back-off only sleeps; time is not part of the
  model. The class has no field for a cache.
\<close>

record HttpClient =
  requestCounts :: "(string \<times> nat) list"
  userAgent :: string

text \<open>The request headers: \<^verbatim>\<open>{'User-Agent': this.userAgent, ...headers}\<close>, and
  \<^verbatim>\<open>Content-Type\<close> for an object body unless given.\<close>

definition request_headers :: "HttpClient \<Rightarrow> HttpRequestOptions \<Rightarrow> (string \<times> string) list" where
  "request_headers client options =
     (let hs = fold (\<lambda>(k, v) m. map_set k v m) (opt_headers options)
                 [(''User-Agent'', userAgent client)]
      in case opt_body options of
           Some (BodyObject j) \<Rightarrow>
             (case map_of hs ''Content-Type'' of
                Some ct \<Rightarrow> hs
              | None \<Rightarrow> map_set ''Content-Type'' ''application/json'' hs)
         | _ \<Rightarrow> hs)"

text \<open>The retry loop \<^verbatim>\<open>for (let attempt = 0; attempt <= maxRetries; attempt++)\<close> with
  \<^verbatim>\<open>maxRetries = 3\<close>, from the value \<open>attempt\<close> on.\<close>

function request_loop ::
  "world \<Rightarrow> string \<Rightarrow> fetch_init \<Rightarrow> nat \<Rightarrow> world \<times> (HttpError + HttpResponse)" where
  "request_loop w addr init attempt =
     (if attempt \<le> 3
      then (let w' = w\<lparr>fetches := fetches w + 1\<rparr> in
            case network w (fetches w) addr init of
              Responded response \<Rightarrow>
                if \<not> ok response
                then (if status response \<in> set RETRYABLE_STATUS_CODES \<and> attempt < 3
                      then request_loop w' addr init (attempt + 1)
                      else (w', Inl (HttpError (status response)
                                       (status response \<in> set RETRYABLE_STATUS_CODES)
                                       (Some (data response)))))
                else (w', Inr (response\<lparr>ok := True\<rparr>))
            | Threw errorCode aborted \<Rightarrow>
                (let retryable = (case errorCode of
                                    Some c \<Rightarrow> c \<in> set RETRYABLE_ERROR_CODES
                                  | None \<Rightarrow> False)
                 in if retryable \<and> attempt < 3 then request_loop w' addr init (attempt + 1)
                    else if aborted then (w', Inl (HttpError 0 True None))
                    else (w', Inl (HttpError 0 retryable None))))
      else (w, Inl (HttpError 0 False None)))"
  by pat_completeness auto
termination
  by (relation "measure (\<lambda>(w, addr, init, attempt). 4 - attempt)") auto

declare request_loop.simps [simp del]

text \<open>\<^verbatim>\<open>HttpClient.request\<close>: count the request for its source, then run the retry loop.
  An empty text body is falsy and is not sent.\<close>

definition request ::
  "HttpClient \<Rightarrow> world \<Rightarrow> string \<Rightarrow> HttpRequestOptions \<Rightarrow>
   HttpClient \<times> world \<times> (HttpError + HttpResponse)" where
  "request client w addr options =
     (let src = (case opt_source options of Some s \<Rightarrow> s | None \<Rightarrow> ''default'');
          client' = client\<lparr>requestCounts :=
                      map_set src ((case map_of (requestCounts client) src of
                                      Some n \<Rightarrow> n | None \<Rightarrow> 0) + 1) (requestCounts client)\<rparr>;
          init = \<lparr>fetch_method = (case opt_method options of Some m \<Rightarrow> m | None \<Rightarrow> ''GET''),
                  fetch_headers = request_headers client options,
                  fetch_body = (case opt_body options of
                                  Some (BodyText []) \<Rightarrow> None | b \<Rightarrow> b)\<rparr>;
          r = request_loop w addr init 0
      in (client', fst r, snd r))"

text \<open>
  \<^verbatim>\<open>ResponseCache\<close>. The file name is the SHA-256 of the URL, a library function and the
  parameter \<open>makeKey\<close>. \<open>now\<close> is \<^verbatim>\<open>Date.now()\<close>. \<^verbatim>\<open>get\<close> answers \<open>None\<close> for \<^verbatim>\<open>null\<close>.
\<close>

record ResponseCache =
  cacheDir :: string
  ttlMs :: int
  cache_enabled :: bool

definition cache_get ::
  "ResponseCache \<Rightarrow> (string \<Rightarrow> string) \<Rightarrow> int \<Rightarrow> world \<Rightarrow> string \<Rightarrow> json option" where
  "cache_get cache makeKey now w addr =
     (if \<not> cache_enabled cache then None
      else case map_of (files w) (makeKey addr) of
             None \<Rightarrow> None
           | Some Corrupt \<Rightarrow> None
           | Some (Entry timestamp u d) \<Rightarrow>
               if now - timestamp > ttlMs cache then None
               else if d = JNull then None else Some d)"

definition cache_set ::
  "ResponseCache \<Rightarrow> (string \<Rightarrow> string) \<Rightarrow> int \<Rightarrow> world \<Rightarrow> string \<Rightarrow> json \<Rightarrow> world" where
  "cache_set cache makeKey now w addr d =
     (if \<not> cache_enabled cache then w
      else w\<lparr>files := map_set (makeKey addr) (Entry now (take 200 addr) d) (files w)\<rparr>)"

text \<open>Values for the examples: a cache with the default time to live of 24 hours, a server
  that answers every request with status 200 and the body \<open>"fresh"\<close>, and a world whose
  cache holds the body \<open>"cached"\<close> for one URL, written at time 1000.\<close>

definition day_cache :: ResponseCache where
  "day_cache = \<lparr>cacheDir = ''.papergraph-cache'', ttlMs = 24 * 60 * 60 * 1000, cache_enabled = True\<rparr>"

definition fresh_response :: HttpResponse where
  "fresh_response = \<lparr>status = 200, headers = [], data = JStr ''fresh'', ok = True\<rparr>"

definition cached_world :: world where
  "cached_world =
     \<lparr>network = (\<lambda>n addr init. Responded fresh_response), fetches = 0,
      files = [(''https://api.openalex.org/works/W1'',
                Entry 1000 ''https://api.openalex.org/works/W1'' (JStr ''cached''))]\<rparr>"

definition test_client :: HttpClient where
  "test_client = \<lparr>requestCounts = [], userAgent = ''PaperGraph/1.0.0 (mailto:papergraph@example.com)''\<rparr>"

definition get_options :: HttpRequestOptions where
  "get_options = \<lparr>opt_method = None, opt_headers = [], opt_body = None, opt_source = Some ''openalex''\<rparr>"

section \<open>Rounding\<close>

lemma bitlen_bounds_real:
  assumes "0 < n"
  shows "2 powi (bitlen n - 1) \<le> real_of_int n" "real_of_int n < 2 powi bitlen n"
proof -
  from assms have b: "1 \<le> bitlen n" by (auto simp: bitlen_alt_def)
  from bitlen_bounds [OF assms] have 1: "2 ^ nat (bitlen n - 1) \<le> n" and 2: "n < 2 ^ nat (bitlen n)" by auto
  from 1 have "real_of_int (2 ^ nat (bitlen n - 1)) \<le> real_of_int n" by (simp only: of_int_le_iff)
  then show "2 powi (bitlen n - 1) \<le> real_of_int n" using b by (simp add: power_int_def power_one_over)
  from 2 have "real_of_int n < real_of_int (2 ^ nat (bitlen n))" by (simp only: of_int_less_iff)
  then show "real_of_int n < 2 powi bitlen n" using b by (simp add: power_int_def power_one_over)
qed

lemma expo_bounds:
  assumes "0 < x"
  shows "2 powi expo x \<le> x \<and> x < 2 powi (expo x + 1)"
proof (cases "1 \<le> x")
  case True
  then have n: "0 < \<lfloor>x\<rfloor>" by linarith
  from bitlen_bounds_real [OF n] have "2 powi (bitlen \<lfloor>x\<rfloor> - 1) \<le> x"
    by linarith
  moreover have "x < 2 powi bitlen \<lfloor>x\<rfloor>"
  proof -
    have "\<lfloor>x\<rfloor> + 1 \<le> 2 ^ nat (bitlen \<lfloor>x\<rfloor>)" using bitlen_bounds [OF n] by linarith
    then have "real_of_int (\<lfloor>x\<rfloor> + 1) \<le> real_of_int (2 ^ nat (bitlen \<lfloor>x\<rfloor>))" by (simp only: of_int_le_iff)
    then have "real_of_int \<lfloor>x\<rfloor> + 1 \<le> 2 powi bitlen \<lfloor>x\<rfloor>"
      using bitlen_nonneg [of "\<lfloor>x\<rfloor>"] by (simp add: power_int_def power_one_over)
    moreover have "x < real_of_int \<lfloor>x\<rfloor> + 1" by linarith
    ultimately show ?thesis by linarith
  qed
  ultimately show ?thesis using True by (simp add: expo_def)
next
  case False
  with assms have x1: "x < 1" by simp
  let ?n = "\<lceil>1 / x\<rceil> - 1"
  have "1 < 1 / x" using assms x1 by simp
  then have n: "0 < ?n" by linarith
  have lo: "real_of_int ?n < 1 / x" by linarith
  have hi: "1 / x \<le> real_of_int ?n + 1" by linarith
  from bitlen_bounds_real [OF n] have a: "2 powi (bitlen ?n - 1) \<le> real_of_int ?n" and b: "real_of_int ?n < 2 powi bitlen ?n" by auto
  have b': "real_of_int ?n + 1 \<le> 2 powi bitlen ?n"
  proof -
    have "?n + 1 \<le> 2 ^ nat (bitlen ?n)" using bitlen_bounds [OF n] by linarith
    then have "real_of_int (?n + 1) \<le> real_of_int (2 ^ nat (bitlen ?n))" by (simp only: of_int_le_iff)
    then show ?thesis using bitlen_nonneg [of ?n] by (simp add: power_int_def power_one_over)
  qed
  have p: "(0::real) < 2 powi k" for k by simp
  have 1: "2 powi (- bitlen ?n) \<le> x"
  proof -
    from hi b' have "1 / x \<le> 2 powi bitlen ?n" by linarith
    then have "1 \<le> x * 2 powi bitlen ?n" using assms by (simp add: field_simps)
    then have "1 / 2 powi bitlen ?n \<le> x" using p [of "bitlen ?n"] by (simp add: field_simps)
    then show ?thesis by (simp add: power_int_minus field_simps)
  qed
  have 2: "x < 2 powi (- bitlen ?n + 1)"
  proof -
    from lo a have "2 powi (bitlen ?n - 1) < 1 / x" by linarith
    then have "x * 2 powi (bitlen ?n - 1) < 1" using assms by (simp add: field_simps)
    then have "x < 1 / 2 powi (bitlen ?n - 1)" using p [of "bitlen ?n - 1"] by (simp add: field_simps)
    also have "1 / 2 powi (bitlen ?n - 1) = (2::real) powi (- (bitlen ?n - 1))"
      by (simp only: power_int_minus inverse_eq_divide)
    finally show ?thesis by simp
  qed
  from 1 2 False show ?thesis by (simp add: expo_def)
qed

lemma powi_mono2: "a \<le> b \<Longrightarrow> (2::real) powi a \<le> 2 powi b"
  by (rule power_int_increasing) simp_all

lemma expo_unique:
  assumes "0 < x" "2 powi e \<le> x" "x < 2 powi (e + 1)"
  shows "expo x = e"
proof (rule ccontr)
  assume ne: "expo x \<noteq> e"
  from expo_bounds [OF assms(1)] have b: "2 powi expo x \<le> x" "x < 2 powi (expo x + 1)" by auto
  from ne consider "expo x + 1 \<le> e" | "e + 1 \<le> expo x" by linarith
  then show False
  proof cases
    case 1
    from powi_mono2 [OF 1] b(2) assms(2) show False by linarith
  next
    case 2
    from powi_mono2 [OF 2] b(1) assms(3) show False by linarith
  qed
qed

lemma round_even_near: "\<bar>of_int (round_even y) - y\<bar> \<le> 1 / 2"
  unfolding round_even_def Let_def by (auto; linarith)

lemma round_even_unique:
  assumes "\<bar>y - of_int m\<bar> < 1 / 2"
  shows "round_even y = m"
proof -
  from round_even_near [of y] assms have "\<bar>real_of_int (round_even y) - real_of_int m\<bar> < 1" by linarith
  then have "\<bar>real_of_int (round_even y - m)\<bar> < 1" by simp
  then have "\<bar>round_even y - m\<bar> < 1" by (simp only: of_int_abs [symmetric] of_int_less_1_iff)
  then show ?thesis by simp
qed

lemma round_even_tie:
  assumes "y = of_int m + 1 / 2"
  shows "round_even y = (if even m then m else m + 1)"
proof -
  have "\<lfloor>y\<rfloor> = m" using assms by linarith
  then show ?thesis using assms by (simp add: round_even_def)
qed


lemma to_double_eqI:
  assumes e: "2 powi e \<le> \<bar>x\<bar>" "\<bar>x\<bar> < 2 powi (e + 1)"
    and q: "q = max (e - 52) (- 1074)"
    and m: "\<bar>x / 2 powi q - of_int m\<bar> < 1 / 2"
    and r: "\<bar>of_int m * 2 powi q\<bar> < (2::real) powi 1024"
  shows "to_double x = Fin (of_int m * 2 powi q)"
proof -
  have "(0::real) < 2 powi e" by simp
  with e(1) have "0 < \<bar>x\<bar>" by linarith
  then have x: "x \<noteq> 0" "0 < \<bar>x\<bar>" by auto
  from expo_unique [OF x(2) e] have ex: "expo \<bar>x\<bar> = e" .
  from round_even_unique [OF m] have "round_even (x / 2 powi q) = m" .
  with x ex q r show ?thesis by (simp add: to_double_def Let_def abs_less_iff)
qed

lemma to_double_tieI:
  assumes e: "2 powi e \<le> \<bar>x\<bar>" "\<bar>x\<bar> < 2 powi (e + 1)"
    and q: "q = max (e - 52) (- 1074)"
    and m: "x / 2 powi q = of_int m + 1 / 2" "even m"
    and r: "\<bar>of_int m * 2 powi q\<bar> < (2::real) powi 1024"
  shows "to_double x = Fin (of_int m * 2 powi q)"
proof -
  have "(0::real) < 2 powi e" by simp
  with e(1) have "0 < \<bar>x\<bar>" by linarith
  then have x: "x \<noteq> 0" "0 < \<bar>x\<bar>" by auto
  from expo_unique [OF x(2) e] have ex: "expo \<bar>x\<bar> = e" .
  from round_even_tie [OF m(1)] m(2) have "round_even (x / 2 powi q) = m" by simp
  with x ex q r show ?thesis by (simp add: to_double_def Let_def abs_less_iff)
qed

lemma to_double_rel:
  assumes lo: "2 powi (- 1022) \<le> \<bar>x\<bar>" and hi: "\<bar>x\<bar> \<le> 2 powi 1023"
  shows "\<exists>y. to_double x = Fin y \<and> \<bar>y - x\<bar> \<le> \<bar>x\<bar> / 2 ^ 53"
proof -
  have "(0::real) < 2 powi (- 1022)" by (rule zero_less_power_int) simp
  with lo have "0 < \<bar>x\<bar>" by linarith
  then have x: "x \<noteq> 0" "0 < \<bar>x\<bar>" by auto
  define e where "e = expo \<bar>x\<bar>"
  from expo_bounds [OF x(2)] have b: "2 powi e \<le> \<bar>x\<bar>" "\<bar>x\<bar> < 2 powi (e + 1)"
    by (auto simp: e_def)
  have e_lo: "- 1022 \<le> e"
  proof (rule ccontr)
    assume "\<not> - 1022 \<le> e"
    then have "e + 1 \<le> - 1022" by simp
    from powi_mono2 [OF this] b(2) have "\<bar>x\<bar> < 2 powi (- 1022)" by linarith
    with lo show False by linarith
  qed
  have e_hi: "e \<le> 1023"
  proof (rule ccontr)
    assume "\<not> e \<le> 1023"
    then have "1024 \<le> e" by simp
    from powi_mono2 [OF this] b(1) have "2 powi 1024 \<le> \<bar>x\<bar>" by linarith
    moreover have "(2::real) powi 1023 < 2 powi 1024" by (rule power_int_strict_increasing) simp_all
    ultimately show False using hi by linarith
  qed
  define q where "q = e - 52"
  have qm: "max (e - 52) (- 1074) = q" using e_lo by (simp add: q_def)
  define y where "y = real_of_int (round_even (x / 2 powi q)) * 2 powi q"
  have p: "(0::real) < 2 powi q" by simp
  have "\<bar>y - x\<bar> = \<bar>real_of_int (round_even (x / 2 powi q)) - x / 2 powi q\<bar> * 2 powi q"
  proof -
    have "y - x = (real_of_int (round_even (x / 2 powi q)) - x / 2 powi q) * 2 powi q"
      using p by (simp add: y_def field_simps)
    then show ?thesis using p by (simp add: abs_mult)
  qed
  also have "\<dots> \<le> 1 / 2 * 2 powi q"
    using round_even_near [of "x / 2 powi q"] p by (intro mult_right_mono) auto
  also have "1 / 2 * (2::real) powi q = 2 powi e / 2 ^ 53"
  proof -
    have "(2::real) powi q = 2 powi e / 2 powi 52"
      unfolding q_def by (rule power_int_diff) simp
    then show ?thesis by (simp add: power_int_def power_one_over)
  qed
  finally have err: "\<bar>y - x\<bar> \<le> 2 powi e / 2 ^ 53" .
  with b(1) have rel: "\<bar>y - x\<bar> \<le> \<bar>x\<bar> / 2 ^ 53" by (simp add: field_simps)
  have "\<bar>y\<bar> \<le> \<bar>x\<bar> + \<bar>y - x\<bar>" by linarith
  also have "\<dots> \<le> 2 powi 1023 + 2 powi 1023 / 2 ^ 53" using rel hi
    by (intro add_mono) (auto simp: field_simps)
  also have "\<dots> < 2 * (2::real) powi 1023" by simp
  also have "\<dots> = 2 powi 1024" using power_int_add_1' [of "2::real" 1023] by simp
  finally have "\<bar>y\<bar> < 2 powi 1024" .
  then have "to_double x = Fin y"
    using x by (simp add: to_double_def Let_def e_def [symmetric] qm y_def [symmetric] abs_less_iff)
  with rel show ?thesis by blast
qed


lemma to_double_eval:
  assumes "2 powi e \<le> \<bar>x\<bar>" "\<bar>x\<bar> < 2 powi (e + 1)"
    and "q = max (e - 52) (- 1074)"
    and "\<bar>x / 2 powi q - of_int m\<bar> < 1 / 2"
    and "y = of_int m * 2 powi q"
    and "\<bar>y\<bar> < (2::real) powi 1024"
  shows "to_double x = Fin y"
  using to_double_eqI [OF assms(1-4)] assms(5,6) by simp


lemma to_double_zero [simp]: "to_double 0 = Fin 0"
  by (simp add: to_double_def)

lemma to_double_int:
  assumes "\<bar>n\<bar> \<le> 2 ^ 53"
  shows "to_double (of_int n) = Fin (of_int n)"
proof (cases "n = 0")
  case True
  then show ?thesis by simp
next
  case False
  then have x: "0 < \<bar>real_of_int n\<bar>" by simp
  define e where "e = expo \<bar>real_of_int n\<bar>"
  from expo_bounds [OF x] have b: "2 powi e \<le> \<bar>real_of_int n\<bar>" "\<bar>real_of_int n\<bar> < 2 powi (e + 1)"
    by (auto simp: e_def)
  have n1: "1 \<le> \<bar>real_of_int n\<bar>" using False by (simp flip: of_int_abs)
  from assms have "real_of_int \<bar>n\<bar> \<le> real_of_int (2 ^ 53)" by (simp only: of_int_le_iff)
  then have n53: "\<bar>real_of_int n\<bar> \<le> 2 powi 53" by (simp add: power_int_def)
  have e0: "0 \<le> e"
  proof (rule ccontr)
    assume "\<not> 0 \<le> e"
    then have "e + 1 \<le> 0" by simp
    from powi_mono2 [OF this] b(2) have "\<bar>real_of_int n\<bar> < 1" by simp
    with n1 show False by simp
  qed
  have e53: "e \<le> 53"
  proof (rule ccontr)
    assume "\<not> e \<le> 53"
    then have "54 \<le> e" by simp
    from powi_mono2 [OF this] b(1) have "2 powi 54 \<le> \<bar>real_of_int n\<bar>" by linarith
    moreover have "(2::real) powi 53 < 2 powi 54" by (rule power_int_strict_increasing) simp_all
    ultimately show False using n53 by linarith
  qed
  have r: "\<bar>real_of_int n\<bar> < 2 powi 1024"
  proof -
    have "(2::real) powi 53 < 2 powi 1024" by (rule power_int_strict_increasing) simp_all
    with n53 show ?thesis by linarith
  qed
  show ?thesis
  proof (cases "e \<le> 52")
    case True
    define k where "k = nat (52 - e)"
    have q: "e - 52 = max (e - 52) (- 1074)" using e0 by simp
    have p: "(2::real) powi (e - 52) = 1 / 2 ^ k"
      using True by (simp add: power_int_def k_def power_one_over)
    have m: "\<bar>real_of_int n / 2 powi (e - 52) - of_int (n * 2 ^ k)\<bar> < 1 / 2"
      by (simp add: p)
    have eq: "of_int (n * 2 ^ k) * 2 powi (e - 52) = real_of_int n" by (simp add: p)
    have "to_double (real_of_int n) = Fin (of_int (n * 2 ^ k) * 2 powi (e - 52))"
      by (rule to_double_eqI [OF b q m]) (simp only: eq r)
    then show ?thesis by (simp only: eq)
  next
    case False
    with e53 have e: "e = 53" by simp
    from b(1) n53 have "\<bar>real_of_int n\<bar> = 2 powi 53" by (simp add: e)
    then have "\<bar>real_of_int n\<bar> = real_of_int (2 ^ 53)" by (simp add: power_int_def)
    then have "\<bar>n\<bar> = 2 ^ 53" by (simp only: of_int_abs [symmetric] of_int_eq_iff)
    then consider "n = 2 ^ 53" | "n = - (2 ^ 53)" by linarith
    then show ?thesis
    proof cases
      case 1
      show ?thesis unfolding 1
        by (rule to_double_eval [where e = 53 and q = 1 and m = "2 ^ 52"])
           (simp_all add: power_int_def power_one_over)
    next
      case 2
      show ?thesis unfolding 2
        by (rule to_double_eval [where e = 53 and q = 1 and m = "- (2 ^ 52)"])
           (simp_all add: power_int_def power_one_over)
    qed
  qed
qed

lemma to_double_numeral [simp]:
  "numeral k \<le> (2::int) ^ 53 \<Longrightarrow> to_double (numeral k) = Fin (numeral k)"
  using to_double_int [of "numeral k"] by simp

lemma to_double_one [simp]: "to_double 1 = Fin 1"
  using to_double_int [of 1] by simp

lemma to_double_sqrt:
  assumes e: "(2 powi e)\<^sup>2 \<le> a" "a < (2 powi (e + 1))\<^sup>2"
    and q: "q = max (e - 52) (- 1074)"
    and m: "0 < m" "((of_int m - 1 / 2) * 2 powi q)\<^sup>2 < a" "a < ((of_int m + 1 / 2) * 2 powi q)\<^sup>2"
    and y: "y = of_int m * 2 powi q" "\<bar>y\<bar> < (2::real) powi 1024"
  shows "to_double (sqrt a) = Fin y"
proof (rule to_double_eval [OF _ _ q _ y])
  have p: "(0::real) < 2 powi k" for k by simp
  have a0: "0 \<le> a" using e(1) by (meson order_trans zero_le_power2)
  have s0: "0 \<le> sqrt a" using a0 by simp
  show "2 powi e \<le> \<bar>sqrt a\<bar>"
    using e(1) p [of e] s0 by (simp add: real_le_rsqrt)
  show "\<bar>sqrt a\<bar> < 2 powi (e + 1)"
    using e(2) p [of "e + 1"] s0 by (simp add: real_less_lsqrt)
  have lo: "(of_int m - 1 / 2) * 2 powi q < sqrt a"
    by (rule real_less_rsqrt) (rule m(2))
  have hi: "sqrt a < (of_int m + 1 / 2) * 2 powi q"
    using m(1) p [of q] by (intro real_less_lsqrt m(3)) simp
  from lo hi p [of q] have "of_int m - 1 / 2 < sqrt a / 2 powi q" "sqrt a / 2 powi q < of_int m + 1 / 2"
    by (simp_all add: field_simps)
  then show "\<bar>sqrt a / 2 powi q - of_int m\<bar> < 1 / 2" by linarith
qed

lemma round_even_mono_floor: "\<lfloor>y\<rfloor> \<le> round_even y"
  by (simp add: round_even_def Let_def)

lemma to_double_overflow:
  assumes "2 powi 1024 \<le> x"
  shows "to_double x = PosInfinity"
proof -
  have p: "(0::real) < 2 powi k" for k by simp
  from assms p [of 1024] have x0: "0 < x" by linarith
  define e where "e = expo \<bar>x\<bar>"
  from expo_bounds [of "\<bar>x\<bar>"] x0 have b: "2 powi e \<le> x" "x < 2 powi (e + 1)"
    by (auto simp: e_def)
  have e: "1024 \<le> e"
  proof (rule ccontr)
    assume "\<not> 1024 \<le> e"
    then have "e + 1 \<le> 1024" by simp
    from powi_mono2 [OF this] b(2) assms show False by linarith
  qed
  define q where "q = e - 52"
  have qm: "max (e - 52) (- 1074) = q" using e by (simp add: q_def)
  have "(2::real) powi e = 2 powi 52 * 2 powi q"
    unfolding q_def by (subst power_int_add [symmetric]) simp_all
  with b(1) have "2 powi 52 * 2 powi q \<le> x" by simp
  then have "2 powi 52 \<le> x / 2 powi q" using p [of q] by (simp add: field_simps)
  then have "real_of_int (2 ^ 52) \<le> x / 2 powi q" by (simp add: power_int_def)
  then have "2 ^ 52 \<le> \<lfloor>x / 2 powi q\<rfloor>" by (simp only: le_floor_iff)
  with round_even_mono_floor [of "x / 2 powi q"] have "2 ^ 52 \<le> round_even (x / 2 powi q)"
    by linarith
  then have "real_of_int (2 ^ 52) \<le> real_of_int (round_even (x / 2 powi q))"
    by (simp only: of_int_le_iff)
  then have "2 powi 52 \<le> real_of_int (round_even (x / 2 powi q))" by (simp add: power_int_def)
  then have "2 powi 52 * 2 powi q \<le> real_of_int (round_even (x / 2 powi q)) * 2 powi q"
    using p [of q] by (intro mult_right_mono) simp_all
  then have "2 powi e \<le> real_of_int (round_even (x / 2 powi q)) * 2 powi q"
    by (simp only: \<open>(2::real) powi e = 2 powi 52 * 2 powi q\<close>)
  with powi_mono2 [OF e] have "2 powi 1024 \<le> real_of_int (round_even (x / 2 powi q)) * 2 powi q"
    by linarith
  then show ?thesis using x0
    by (simp only: to_double_def Let_def e_def [symmetric] qm) simp
qed

lemma js_mul_commute: "js_mul x y = js_mul y x"
  by (cases x; cases y) (simp_all add: mult.commute)


section \<open>Properties of the inverted-index reconstruction\<close>

lemma push_positions_occ:
  "push_positions word ps =
     concat (map (\<lambda>p. case p of JNum pos \<Rightarrow> if 0 \<le> pos then [(pos, word)] else [] | _ \<Rightarrow> []) ps)"
  by (induction word ps rule: push_positions.induct) auto

lemma collect_words_occurrences: "collect_words es = occurrences es"
  by (induction es rule: collect_words.induct) (auto simp: occurrences_def push_positions_occ)

lemma occurrences_append: "occurrences (es @ es') = occurrences es @ occurrences es'"
  by (simp add: occurrences_def)

lemma occurrences_Cons: "occurrences (e # es) = occurrences [e] @ occurrences es"
  by (simp add: occurrences_def)

lemma occurrences_non_array: "(\<forall>ps. v \<noteq> JArr ps) \<Longrightarrow> occurrences [(w, v)] = []"
  by (cases v) (auto simp: occurrences_def)

lemma occurrences_bad_position:
  "(\<forall>r. p \<noteq> JNum r) \<or> (\<exists>r. p = JNum r \<and> r < 0) \<Longrightarrow>
   occurrences [(w, JArr (ps @ p # ps'))] = occurrences [(w, JArr (ps @ ps'))]"
  by (cases p) (auto simp: occurrences_def)

lemma invertedIndexToText_occurrences:
  "invertedIndexToText (Some es) =
     (if occurrences es = [] then None
      else Some (join_space (map snd (sort_key fst (occurrences es)))))"
  by (simp add: invertedIndexToText_def collect_words_occurrences)

text \<open>
  Claim C8. \<open>invertedIndexToText\<close> returns the words of the index in ascending order of
  position, joined by single spaces: the result is the join of a position-sorted
  permutation of the occurrences, so a word listed at several positions appears once per
  position. An entry whose value is not an array is ignored, and so is a position that is
  not a number or is negative. A null index and an empty index yield null. The two literal
  examples of the specification evaluate as stated.
\<close>

theorem invertedIndexToText_spec:
  "invertedIndexToText None = None \<and>
   invertedIndexToText (Some []) = None \<and>
   (\<exists>ws. mset ws = mset (occurrences es) \<and> sorted (map fst ws) \<and>
      invertedIndexToText (Some es) =
        (if occurrences es = [] then None else Some (join_space (map snd ws)))) \<and>
   ((\<forall>ps. v \<noteq> JArr ps) \<longrightarrow>
      invertedIndexToText (Some (es1 @ (w, v) # es2)) = invertedIndexToText (Some (es1 @ es2))) \<and>
   ((\<forall>r. p \<noteq> JNum r) \<or> (\<exists>r. p = JNum r \<and> r < 0) \<longrightarrow>
      invertedIndexToText (Some (es1 @ (w, JArr (ps1 @ p # ps2)) # es2)) =
      invertedIndexToText (Some (es1 @ (w, JArr (ps1 @ ps2)) # es2))) \<and>
   invertedIndexToText (Some [(''This'', JArr [JNum 0]), (''is'', JArr [JNum 1]),
      (''a'', JArr [JNum 2]), (''test'', JArr [JNum 3])]) = Some ''This is a test'' \<and>
   invertedIndexToText (Some [(''the'', JArr [JNum 0, JNum 3]), (''cat'', JArr [JNum 1]),
      (''chased'', JArr [JNum 2]), (''mouse'', JArr [JNum 4])]) = Some ''the cat chased the mouse''"
proof -
  have a: "invertedIndexToText None = None" "invertedIndexToText (Some []) = None"
    by (simp_all add: invertedIndexToText_def)
  have c: "\<exists>ws. mset ws = mset (occurrences es) \<and> sorted (map fst ws) \<and>
      invertedIndexToText (Some es) =
        (if occurrences es = [] then None else Some (join_space (map snd ws)))"
    by (rule exI [of _ "sort_key fst (occurrences es)"])
       (simp add: invertedIndexToText_occurrences)
  have d: "invertedIndexToText (Some (es1 @ (w, v) # es2)) = invertedIndexToText (Some (es1 @ es2))"
    if "\<forall>ps. v \<noteq> JArr ps"
  proof -
    have "occurrences (es1 @ (w, v) # es2) = occurrences (es1 @ es2)"
      using occurrences_non_array [OF that, of w]
      by (simp add: occurrences_append occurrences_Cons [of "(w, v)" es2])
    then show ?thesis by (simp add: invertedIndexToText_occurrences)
  qed
  have e: "invertedIndexToText (Some (es1 @ (w, JArr (ps1 @ p # ps2)) # es2)) =
      invertedIndexToText (Some (es1 @ (w, JArr (ps1 @ ps2)) # es2))"
    if "(\<forall>r. p \<noteq> JNum r) \<or> (\<exists>r. p = JNum r \<and> r < 0)"
  proof -
    have "occurrences (es1 @ (w, JArr (ps1 @ p # ps2)) # es2) =
          occurrences (es1 @ (w, JArr (ps1 @ ps2)) # es2)"
      using occurrences_bad_position [OF that, of w ps1 ps2]
      by (simp add: occurrences_append occurrences_Cons [of "(w, JArr (ps1 @ p # ps2))" es2]
           occurrences_Cons [of "(w, JArr (ps1 @ ps2))" es2])
    then show ?thesis by (simp add: invertedIndexToText_occurrences)
  qed
  have f: "invertedIndexToText (Some [(''This'', JArr [JNum 0]), (''is'', JArr [JNum 1]),
      (''a'', JArr [JNum 2]), (''test'', JArr [JNum 3])]) = Some ''This is a test''"
    by (simp add: invertedIndexToText_def)
  have g: "invertedIndexToText (Some [(''the'', JArr [JNum 0, JNum 3]), (''cat'', JArr [JNum 1]),
      (''chased'', JArr [JNum 2]), (''mouse'', JArr [JNum 4])]) = Some ''the cat chased the mouse''"
    by (simp add: invertedIndexToText_def)
  from a c d e f g show ?thesis by blast
qed

theorem invertedIndexToText_spec_witness:
  "(\<forall>ps. JStr ''n-a'' \<noteq> JArr ps) \<and>
   invertedIndexToText (Some ([(''world'', JArr [JNum 1])] @ (''junk'', JStr ''n-a'') #
       [(''hello'', JArr [JNum 0])])) = Some ''hello world'' \<and>
   (\<exists>r. JNum (- 1) = JNum r \<and> r < 0) \<and>
   invertedIndexToText (Some ([(''world'', JArr [JNum 1])] @
       (''hello'', JArr ([JStr ''x''] @ JNum (- 1) # [JNum 0])) # [])) = Some ''hello world''"
proof -
  have h1: "\<forall>ps. JStr ''n-a'' \<noteq> JArr ps" by simp
  have h2: "(\<forall>r. JNum (- 1) \<noteq> JNum r) \<or> (\<exists>r. JNum (- 1) = JNum r \<and> r < 0)" by simp
  have h2': "\<exists>r. JNum (- 1) = JNum r \<and> r < 0" by simp
  note t = invertedIndexToText_spec [of "[]" "JStr ''n-a''" "[(''world'', JArr [JNum 1])]"
      "''junk''" "[(''hello'', JArr [JNum 0])]" "JNum 0" "[]" "[]"]
  note u = invertedIndexToText_spec [of "[]" "JNull" "[(''world'', JArr [JNum 1])]"
      "''hello''" "[]" "JNum (- 1)" "[JStr ''x'']" "[JNum 0]"]
  from t h1 have r1: "invertedIndexToText (Some ([(''world'', JArr [JNum 1])] @
       (''junk'', JStr ''n-a'') # [(''hello'', JArr [JNum 0])])) =
       invertedIndexToText (Some ([(''world'', JArr [JNum 1])] @ [(''hello'', JArr [JNum 0])]))"
    by blast
  from u h2 have r2: "invertedIndexToText (Some ([(''world'', JArr [JNum 1])] @
       (''hello'', JArr ([JStr ''x''] @ JNum (- 1) # [JNum 0])) # [])) =
       invertedIndexToText (Some ([(''world'', JArr [JNum 1])] @
       (''hello'', JArr ([JStr ''x''] @ [JNum 0])) # []))"
    by blast
  have e1: "invertedIndexToText (Some ([(''world'', JArr [JNum 1])] @ [(''hello'', JArr [JNum 0])]))
      = Some ''hello world''"
    by (simp add: invertedIndexToText_def)
  have e2: "invertedIndexToText (Some ([(''world'', JArr [JNum 1])] @
       (''hello'', JArr ([JStr ''x''] @ [JNum 0])) # [])) = Some ''hello world''"
    by (simp add: invertedIndexToText_def)
  from h1 h2' r1 r2 e1 e2 show ?thesis by simp
qed

section \<open>Properties of the upsert\<close>

lemma has_key_do_update [simp]:
  "has_key s sid (i, do_update p r) = has_key s sid (i, r)"
  by (simp add: has_key_def do_update_def)

lemma has_key_same:
  "has_key s sid a \<Longrightarrow> has_key s' sid' a = (s' = s \<and> sid' = sid)"
  by (auto simp: has_key_def)

lemma filter_no_key:
  "\<not> list_ex (has_key s sid) rs \<Longrightarrow> filter (has_key s sid) rs = []"
  by (induction rs) auto

lemma filter_unique_key:
  "distinct (map (\<lambda>r. (source (snd r), source_id (snd r))) rs) \<Longrightarrow>
   list_ex (has_key s sid) rs \<Longrightarrow>
   \<exists>i r. filter (has_key s sid) rs = [(i, r)] \<and>
         filter (has_key s sid) (update_conflict p' rs) =
           (if source p' = s \<and> source_id p' = sid then [(i, do_update p' r)] else [(i, r)])"
proof (induction rs)
  case Nil
  then show ?case by simp
next
  case (Cons a rs)
  show ?case
  proof (cases "has_key s sid a")
    case True
    have "\<not> list_ex (has_key s sid) rs"
    proof
      assume "list_ex (has_key s sid) rs"
      then obtain b where b: "b \<in> set rs" "has_key s sid b" by (auto simp: list_ex_iff)
      with True have "(source (snd a), source_id (snd a)) = (source (snd b), source_id (snd b))"
        by (simp add: has_key_def)
      with b(1) have "(source (snd a), source_id (snd a)) \<in> set (map (\<lambda>r. (source (snd r), source_id (snd r))) rs)"
        by force
      with Cons.prems(1) show False by simp
    qed
    then have "filter (has_key s sid) rs = []" by (rule filter_no_key)
    moreover have "filter (has_key s sid) (update_conflict p' rs) = []"
      if "\<not> has_key (source p') (source_id p') a"
    proof -
      have "\<And>rs. \<not> list_ex (has_key s sid) rs \<Longrightarrow> \<not> list_ex (has_key s sid) (update_conflict p' rs)"
        subgoal for rs by (induction rs) auto
        done
      then show ?thesis using \<open>\<not> list_ex (has_key s sid) rs\<close> filter_no_key by blast
    qed
    ultimately show ?thesis using True has_key_same [OF True, of "source p'" "source_id p'"]
      by (cases a) auto
  next
    case False
    with Cons.prems have ex: "list_ex (has_key s sid) rs" and d: "distinct (map (\<lambda>r. (source (snd r), source_id (snd r))) rs)"
      by auto
    from Cons.IH [OF d ex] obtain i r where ir: "filter (has_key s sid) rs = [(i, r)]"
      "filter (has_key s sid) (update_conflict p' rs) =
           (if source p' = s \<and> source_id p' = sid then [(i, do_update p' r)] else [(i, r)])"
      by blast
    show ?thesis
    proof (cases "has_key (source p') (source_id p') a")
      case True
      with False have ne: "\<not> (source p' = s \<and> source_id p' = sid)" by auto
      with ir False True show ?thesis by (cases a) auto
    next
      case F2: False
      with ir False show ?thesis by auto
    qed
  qed
qed



lemma keys_update_conflict:
  "map (\<lambda>r. (source (snd r), source_id (snd r))) (update_conflict p rs) =
   map (\<lambda>r. (source (snd r), source_id (snd r))) rs"
  by (induction rs) (auto simp: do_update_def)

lemma list_ex_update_conflict:
  "list_ex (has_key s sid) (update_conflict p rs) = list_ex (has_key s sid) rs"
  by (induction rs) auto

lemma do_update_idem: "do_update p (do_update p r) = do_update p r"
  by (simp add: do_update_def coalesce_def split: option.splits)

lemma do_update_columns: "do_update p (columns p) = columns p"
  by (cases p) (simp add: do_update_def columns_def coalesce_def split: option.splits)

lemma update_conflict_idem: "update_conflict p (update_conflict p rs) = update_conflict p rs"
  by (induction rs) (auto simp: do_update_idem)

lemma has_key_columns [simp]:
  "has_key s sid (i, columns p) = (source p = s \<and> source_id p = sid)"
  by (simp add: has_key_def columns_def)

lemma update_conflict_fresh:
  "\<not> list_ex (has_key (source p) (source_id p)) rs \<Longrightarrow>
   update_conflict p (rs @ [(i, columns p)]) = rs @ [(i, columns p)]"
  by (induction rs) (auto simp: do_update_columns)

lemma next_rowid_pos: "next_rowid tbl \<noteq> 0"
  by (simp add: next_rowid_def)

lemma fst_upsertPaper: "fst (upsertPaper p db) = fst (upsert_run p db)"
  by (simp add: upsertPaper_def Let_def split: prod.splits)

lemma upsert_run_conflict:
  "list_ex (has_key (source p) (source_id p)) (papers db) \<Longrightarrow>
   fst (upsert_run p db) = db\<lparr>papers := update_conflict p (papers db)\<rparr>"
  by (simp add: upsert_run_def)

lemma upsert_run_fresh:
  "\<not> list_ex (has_key (source p) (source_id p)) (papers db) \<Longrightarrow>
   fst (upsert_run p db) = db\<lparr>papers := papers db @ [(next_rowid (papers db), columns p)],
               lastInsertRowid := next_rowid (papers db)\<rparr>"
  by (simp add: upsert_run_def)

lemma upsert_run_has_key:
  "list_ex (has_key (source p) (source_id p)) (papers (fst (upsert_run p db)))"
  by (auto simp: upsert_run_def list_ex_update_conflict has_key_def columns_def)

lemma upsert_run_unique:
  "unique_keys db \<Longrightarrow> unique_keys (fst (upsert_run p db))"
  by (auto simp: upsert_run_def unique_keys_def keys_update_conflict has_key_def columns_def
      list_ex_iff)

lemma upsert_run_idem: "fst (upsert_run p (fst (upsert_run p db))) = fst (upsert_run p db)"
proof (cases "list_ex (has_key (source p) (source_id p)) (papers db)")
  case True
  then show ?thesis
    by (simp add: upsert_run_def list_ex_update_conflict update_conflict_idem)
next
  case False
  have "list_ex (has_key (source p) (source_id p)) (papers db @ [(next_rowid (papers db), columns p)])"
    by (simp add: has_key_def columns_def)
  with False show ?thesis
    by (simp add: upsert_run_def update_conflict_fresh)
qed

lemma upsertPaper_idem:
  "upsertPaper p (fst (upsertPaper p db)) = upsertPaper p db"
proof -
  have "snd (upsert_run p db) = 1"
    by (simp add: upsert_run_def)
  then obtain db1 where 2: "upsert_run p db = (db1, 1)"
    by (metis prod.collapse)
  have "fst (upsert_run p db1) = db1"
    using upsert_run_idem [of p db] 2 by simp
  moreover have "snd (upsert_run p db1) = 1"
    by (simp add: upsert_run_def)
  ultimately have 1: "upsert_run p db1 = (db1, 1)"
    by (metis prod.collapse)
  show ?thesis
    by (simp add: upsertPaper_def 1 2)
qed

lemma coalesce_if: "coalesce a b = (if a = None then b else a)"
  by (cases a) (simp_all add: coalesce_def)

lemma do_update_fields:
  "title (do_update e r) = title e"
  "citation_count (do_update e r) = max (citation_count r) (citation_count e)"
  "doi (do_update e r) = (if doi e = None then doi r else doi e)"
  "arxiv_id (do_update e r) = (if arxiv_id e = None then arxiv_id r else arxiv_id e)"
  "abstract (do_update e r) = (if abstract e = None then abstract r else abstract e)"
  "year (do_update e r) = (if year e = None then year r else year e)"
  "venue (do_update e r) = (if venue e = None then venue r else venue e)"
  "url (do_update e r) = (if url e = None then url r else url e)"
  "influence_score (do_update e r) =
     (if influence_score e = None then influence_score r else influence_score e)"
  "keywords_json (do_update e r) =
     (if keywords_json e = None then keywords_json r else keywords_json e)"
  "concepts_json (do_update e r) =
     (if concepts_json e = None then concepts_json r else concepts_json e)"
  by (simp_all add: do_update_def coalesce_if)

text \<open>
  Claim C9. In a store whose \<^verbatim>\<open>(source, source_id)\<close> keys are unique (the unique index),
  upserting a record \<open>p1\<close> and then a record \<open>p2\<close> with the same key leaves exactly one
  row for that key, with the rowid it had after the first upsert. In that row the title is
  the one of \<open>p2\<close>, every nullable column is the value of \<open>p2\<close> when that is not null and
  the stored value otherwise, and \<open>citation_count\<close> is the maximum of the stored and the
  incoming value. After the first upsert the row is \<open>p1\<close> itself when the key was new.
  Upserting the identical record a second time changes nothing: the store and the
  returned id are those of the first upsert.
\<close>

theorem upsertPaper_twice:
  assumes u: "unique_keys db" and k1: "source p2 = source p1" and k2: "source_id p2 = source_id p1"
  shows "\<exists>i r1 r2.
     filter (has_key (source p1) (source_id p1)) (papers (fst (upsertPaper p1 db))) = [(i, r1)] \<and>
     filter (has_key (source p1) (source_id p1))
        (papers (fst (upsertPaper p2 (fst (upsertPaper p1 db))))) = [(i, r2)] \<and>
     title r2 = title p2 \<and>
     citation_count r2 = max (citation_count r1) (citation_count p2) \<and>
     doi r2 = (if doi p2 = None then doi r1 else doi p2) \<and>
     arxiv_id r2 = (if arxiv_id p2 = None then arxiv_id r1 else arxiv_id p2) \<and>
     abstract r2 = (if abstract p2 = None then abstract r1 else abstract p2) \<and>
     year r2 = (if year p2 = None then year r1 else year p2) \<and>
     venue r2 = (if venue p2 = None then venue r1 else venue p2) \<and>
     url r2 = (if url p2 = None then url r1 else url p2) \<and>
     influence_score r2 = (if influence_score p2 = None then influence_score r1 else influence_score p2) \<and>
     keywords_json r2 = (if keywords_json p2 = None then keywords_json r1 else keywords_json p2) \<and>
     concepts_json r2 = (if concepts_json p2 = None then concepts_json r1 else concepts_json p2) \<and>
     (if list_ex (has_key (source p1) (source_id p1)) (papers db) then title r1 = title p1
      else r1 = columns p1) \<and>
     upsertPaper p1 (fst (upsertPaper p1 db)) = upsertPaper p1 db"
proof -
  let ?K = "has_key (source p1) (source_id p1)"
  let ?db1 = "fst (upsert_run p1 db)"
  have u1: "distinct (map (\<lambda>r. (source (snd r), source_id (snd r))) (papers ?db1))"
    using upsert_run_unique [OF u, of p1] by (simp add: unique_keys_def)
  have e1: "list_ex ?K (papers ?db1)" by (rule upsert_run_has_key)
  from filter_unique_key [OF u1 e1, of p2] obtain i r1 where
    f1: "filter ?K (papers ?db1) = [(i, r1)]" and
    f2: "filter ?K (update_conflict p2 (papers ?db1)) = [(i, do_update p2 r1)]"
    using k1 k2 by auto
  have e2: "list_ex (has_key (source p2) (source_id p2)) (papers ?db1)"
    using e1 k1 k2 by simp
  have db2: "papers (fst (upsert_run p2 ?db1)) = update_conflict p2 (papers ?db1)"
    using upsert_run_conflict [OF e2] by simp
  have r1: "if list_ex ?K (papers db) then title r1 = title p1 else r1 = columns p1"
  proof (cases "list_ex ?K (papers db)")
    case True
    have d: "distinct (map (\<lambda>r. (source (snd r), source_id (snd r))) (papers db))"
      using u by (simp add: unique_keys_def)
    from filter_unique_key [OF d True, of p1] obtain j r0 where
      "filter ?K (update_conflict p1 (papers db)) = [(j, do_update p1 r0)]" by auto
    with f1 upsert_run_conflict [OF True] have "r1 = do_update p1 r0" by simp
    with True show ?thesis by (simp add: do_update_fields)
  next
    case False
    with f1 upsert_run_fresh [OF False] filter_no_key [OF False] show ?thesis by simp
  qed
  have g1: "filter ?K (papers (fst (upsertPaper p1 db))) = [(i, r1)]"
    using f1 by (simp add: fst_upsertPaper)
  have g2: "filter ?K (papers (fst (upsertPaper p2 (fst (upsertPaper p1 db))))) =
      [(i, do_update p2 r1)]"
    using f2 db2 by (simp add: fst_upsertPaper)
  note flds = do_update_fields [of p2 r1]
  show ?thesis
    apply (rule exI [of _ i], rule exI [of _ r1], rule exI [of _ "do_update p2 r1"])
    apply (intro conjI)
    apply (rule g1)
    apply (rule g2)
    apply (rule flds)+
    apply (rule r1)
    apply (rule upsertPaper_idem)
    done
qed

theorem upsertPaper_twice_witness:
  "unique_keys empty_db \<and>
   source (test_paper\<lparr>title := ''Updated Title'', citation_count := 20\<rparr>) = source test_paper \<and>
   source_id (test_paper\<lparr>title := ''Updated Title'', citation_count := 20\<rparr>) = source_id test_paper \<and>
   (\<exists>i r1 r2.
      filter (has_key OpenAlex ''W123'') (papers (fst (upsertPaper test_paper empty_db))) = [(i, r1)] \<and>
      filter (has_key OpenAlex ''W123'')
        (papers (fst (upsertPaper (test_paper\<lparr>title := ''Updated Title'', citation_count := 20\<rparr>)
           (fst (upsertPaper test_paper empty_db))))) = [(i, r2)] \<and>
      title r2 = ''Updated Title'' \<and> citation_count r2 = 20 \<and> year r2 = Some 2024)"
proof -
  let ?p2 = "test_paper\<lparr>title := ''Updated Title'', citation_count := 20\<rparr>"
  have h1: "unique_keys empty_db" by (simp add: unique_keys_def empty_db_def)
  have h2: "source ?p2 = source test_paper" by simp
  have h3: "source_id ?p2 = source_id test_paper" by simp
  have fresh: "\<not> list_ex (has_key (source test_paper) (source_id test_paper)) (papers empty_db)"
    by (simp add: empty_db_def)
  from upsertPaper_twice [OF h1 h2 h3] obtain i r1 r2 where
    a: "filter (has_key (source test_paper) (source_id test_paper))
          (papers (fst (upsertPaper test_paper empty_db))) = [(i, r1)]" and
    b: "filter (has_key (source test_paper) (source_id test_paper))
          (papers (fst (upsertPaper ?p2 (fst (upsertPaper test_paper empty_db))))) = [(i, r2)]" and
    c: "title r2 = title ?p2" and
    d: "citation_count r2 = max (citation_count r1) (citation_count ?p2)" and
    y: "year r2 = (if year ?p2 = None then year r1 else year ?p2)" and
    e: "if list_ex (has_key (source test_paper) (source_id test_paper)) (papers empty_db)
        then title r1 = title test_paper else r1 = columns test_paper"
    by blast
  from e fresh have r1: "r1 = columns test_paper" by simp
  have k: "source test_paper = OpenAlex" "source_id test_paper = ''W123''"
    by (simp_all add: test_paper_def)
  have "title r2 = ''Updated Title''" using c by simp
  moreover have "citation_count r2 = 20" using d r1 by (simp add: columns_def test_paper_def)
  moreover have "year r2 = Some 2024" using y by (simp add: test_paper_def)
  ultimately show ?thesis using h1 h2 h3 a b unfolding k by blast
qed


section \<open>Properties of the cosine similarity\<close>

lemma fold_products:
  assumes "\<And>t w. (t, w) \<in> set xs \<Longrightarrow> f t = w"
  shows "fold (\<lambda>(term, weightA) dotProduct.
             case map_of b term of
               Some weightB \<Rightarrow> js_add dotProduct (js_mul (Fin weightA) (Fin weightB))
             | None \<Rightarrow> dotProduct) xs acc =
         fold (\<lambda>t acc. js_add acc (js_mul (Fin (f t)) (Fin (the (map_of b t)))))
           (filter (\<lambda>t. map_of b t \<noteq> None) (map fst xs)) acc"
  using assms
proof (induction xs arbitrary: acc)
  case Nil
  then show ?case by simp
next
  case (Cons x xs)
  obtain t w where x: "x = (t, w)" by (cases x)
  from Cons.prems [of t w] have f: "f t = w" by (simp add: x)
  have "\<And>t w. (t, w) \<in> set xs \<Longrightarrow> f t = w" using Cons.prems by simp
  from Cons.IH [OF this] show ?case by (auto simp: x f)
qed

lemma dot_product_shared:
  assumes "distinct (map fst a)"
  shows "dot_product a b =
         fold (\<lambda>t acc. js_add acc (js_mul (Fin (the (map_of a t))) (Fin (the (map_of b t)))))
           (shared_terms a b) (Fin 0)"
  unfolding dot_product_def shared_terms_def
  by (rule fold_products) (simp add: map_of_eq_Some_iff [OF assms, symmetric])

lemma dot_product_commute:
  assumes "distinct (map fst a)" "distinct (map fst b)" "shared_terms a b = shared_terms b a"
  shows "dot_product a b = dot_product b a"
  unfolding dot_product_shared [OF assms(1)] dot_product_shared [OF assms(2)] assms(3)
  by (simp add: mult.commute)

text \<open>
  Claim C10, as amended. On sparse vectors, that is on entry lists with pairwise distinct
  terms, as the entries of a \<^verbatim>\<open>Map\<close> are, \<open>cosineSimilarity u v\<close> and
  \<open>cosineSimilarity v u\<close> are the same number when the two vectors have different sizes
  (both calls then iterate the smaller one), or when the terms that both have come in the
  same order in both. When the sizes are equal each call adds the products in the order
  of its first argument, and the two rounded sums can differ, as the counterexample shows.
\<close>

theorem cosineSimilarity_commute:
  assumes "distinct (map fst u)" "distinct (map fst v)"
    and "length u \<noteq> length v \<or> shared_terms u v = shared_terms v u"
  shows "cosineSimilarity u v = cosineSimilarity v u"
proof -
  note m = js_mul_commute [of "js_sqrt (norm_sq u)" "js_sqrt (norm_sq v)"]
  consider (lt) "length u < length v" | (gt) "length v < length u"
    | (eq) "length u = length v" "shared_terms u v = shared_terms v u"
    using assms(3) by linarith
  then show ?thesis
  proof cases
    case lt
    then show ?thesis by (auto simp: cosineSimilarity_def Let_def m)
  next
    case gt
    then show ?thesis by (auto simp: cosineSimilarity_def Let_def m)
  next
    case eq
    from dot_product_commute [OF assms(1,2) eq(2)] eq(1) show ?thesis
      by (auto simp: cosineSimilarity_def Let_def m)
  qed
qed

text \<open>The numbers of the counterexample: \<open>2\<^sup>5\<^sup>4 + 2\<close> lies halfway between the neighbours
  \<open>2\<^sup>5\<^sup>4\<close> and \<open>2\<^sup>5\<^sup>4 + 4\<close> and rounds to the even one, \<open>2\<^sup>5\<^sup>4\<close>.\<close>

lemma double_2p54: "to_double (18014398509481984) = Fin (18014398509481984)"
  by (rule to_double_eval [where e = "54" and q = "2" and m = "4503599627370496"])
     (simp_all add: power_int_def power_one_over)

lemma double_2p54_2: "to_double (18014398509481986) = Fin (18014398509481984)"
  using to_double_tieI [where e = "54" and q = "2" and m = "4503599627370496" and x = "18014398509481986"]
  by (simp add: power_int_def power_one_over)

lemma double_2p54_4: "to_double (18014398509481988) = Fin (18014398509481988)"
  by (rule to_double_eval [where e = "54" and q = "2" and m = "4503599627370497"])
     (simp_all add: power_int_def power_one_over)

lemma double_2p108: "to_double (324518553658426726783156020576256) = Fin (324518553658426726783156020576256)"
  by (rule to_double_eval [where e = "108" and q = "56" and m = "4503599627370496"])
     (simp_all add: power_int_def power_one_over)

lemma double_2p108_1: "to_double (324518553658426726783156020576257) = Fin (324518553658426726783156020576256)"
  by (rule to_double_eval [where e = "108" and q = "56" and m = "4503599627370496"])
     (simp_all add: power_int_def power_one_over)

lemma double_3_2p54: "to_double (54043195528445952) = Fin (54043195528445952)"
  by (rule to_double_eval [where e = "55" and q = "3" and m = "6755399441055744"])
     (simp_all add: power_int_def power_one_over)

lemma double_third: "to_double (1 / 3) = Fin (6004799503160661 / 18014398509481984)"
  by (rule to_double_eval [where e = "- 2" and q = "- 54" and m = "6004799503160661"])
     (simp_all add: power_int_def power_one_over)

lemma double_third_up: "to_double (4503599627370497 / 13510798882111488) = Fin (6004799503160663 / 18014398509481984)"
  by (rule to_double_eval [where e = "- 2" and q = "- 54" and m = "6004799503160663"])
     (simp_all add: power_int_def power_one_over)

lemma sqrt_2p108: "sqrt 324518553658426726783156020576256 = 18014398509481984"
  by (rule real_sqrt_unique) simp_all

lemma sqrt_9: "sqrt 9 = 3"
  by (rule real_sqrt_unique) simp_all

theorem cosineSimilarity_commute_counterexample:
  "cosineSimilarity [(''x'', 2 ^ 54), (''y'', 1), (''z'', 1)] [(''y'', 2), (''z'', 2), (''x'', 1)]
     = Fin (6004799503160661 / 2 ^ 54) \<and>
   cosineSimilarity [(''y'', 2), (''z'', 2), (''x'', 1)] [(''x'', 2 ^ 54), (''y'', 1), (''z'', 1)]
     = Fin (6004799503160663 / 2 ^ 54)"
  by (simp add: cosineSimilarity_def dot_product_def norm_sq_def double_2p54 double_2p54_2
      double_2p54_4 double_2p108 double_2p108_1 double_3_2p54 double_third double_third_up
      sqrt_2p108 sqrt_9)

theorem cosineSimilarity_commute_witness:
  "distinct (map fst [(''a'', 1::real), (''b'', 2)]) \<and>
   distinct (map fst [(''a'', 1 / 2::real), (''c'', 1), (''d'', 3)]) \<and>
   length [(''a'', 1::real), (''b'', 2)] \<noteq> length [(''a'', 1 / 2::real), (''c'', 1), (''d'', 3)] \<and>
   cosineSimilarity [(''a'', 1), (''b'', 2)] [(''a'', 1 / 2), (''c'', 1), (''d'', 3)] =
   cosineSimilarity [(''a'', 1 / 2), (''c'', 1), (''d'', 3)] [(''a'', 1), (''b'', 2)] \<and>
   distinct (map fst [(''a'', 3::real), (''b'', 1)]) \<and>
   shared_terms [(''a'', 1), (''b'', 2)] [(''a'', 3), (''b'', 1)] =
   shared_terms [(''a'', 3), (''b'', 1)] [(''a'', 1), (''b'', 2)] \<and>
   cosineSimilarity [(''a'', 1), (''b'', 2)] [(''a'', 3), (''b'', 1)] =
   cosineSimilarity [(''a'', 3), (''b'', 1)] [(''a'', 1), (''b'', 2)]"
proof -
  have h1: "distinct (map fst [(''a'', 1::real), (''b'', 2)])" by simp
  have h2: "distinct (map fst [(''a'', 1 / 2::real), (''c'', 1), (''d'', 3)])" by simp
  have h3: "length [(''a'', 1::real), (''b'', 2)] \<noteq> length [(''a'', 1 / 2::real), (''c'', 1), (''d'', 3)]"
    by simp
  have h4: "distinct (map fst [(''a'', 3::real), (''b'', 1)])" by simp
  have h5: "shared_terms [(''a'', 1), (''b'', 2)] [(''a'', 3), (''b'', 1)] =
            shared_terms [(''a'', 3), (''b'', 1)] [(''a'', 1), (''b'', 2)]"
    by (simp add: shared_terms_def)
  from cosineSimilarity_commute [OF h1 h2 disjI1 [OF h3]]
    cosineSimilarity_commute [OF h1 h4 disjI2 [OF h5]] h1 h2 h3 h4 h5
  show ?thesis by blast
qed

section \<open>Properties of the TF-IDF corpus\<close>

lemma map_set_keys:
  "map fst (map_set k v m) = (if k \<in> set (map fst m) then map fst m else map fst m @ [k])"
  by (induction k v m rule: map_set.induct) auto

lemma distinct_map_set: "distinct (map fst m) \<Longrightarrow> distinct (map fst (map_set k v m))"
  by (simp add: map_set_keys)

lemma set_map_set: "set (map_set k v m) \<subseteq> insert (k, v) (set m)"
  by (induction k v m rule: map_set.induct) auto

lemma distinct_fold_map_set:
  "distinct (map fst m) \<Longrightarrow> distinct (map fst (fold (\<lambda>k m. map_set k (f k m) m) ks m))"
  by (induction ks arbitrary: m) (simp_all add: distinct_map_set)

lemma distinct_count_tokens: "distinct (map fst (count_tokens tokens))"
  unfolding count_tokens_def by (rule distinct_fold_map_set) simp

lemma keys_normalize_tf: "map fst (normalize_tf tf) = map fst tf"
  by (simp add: normalize_tf_def case_prod_unfold comp_def)

lemma keys_tfidf_weights: "map fst (tfidf_weights N d docTf) = map fst docTf"
  by (simp add: tfidf_weights_def case_prod_unfold comp_def)

lemma corpus_step_distinct:
  "\<forall>d \<in> set (fst st). distinct (map fst (snd d)) \<Longrightarrow>
   \<forall>d \<in> set (fst (corpus_step jk p st)). distinct (map fst (snd d))"
  using set_map_set [of "doc_id p" "normalize_tf (count_tokens (tokenize (paper_text jk p)))" "fst st"]
  by (auto simp: corpus_step_def Let_def keys_normalize_tf distinct_count_tokens)

lemma fold_corpus_step_distinct:
  "\<forall>d \<in> set (fst st). distinct (map fst (snd d)) \<Longrightarrow>
   \<forall>d \<in> set (fst (fold (corpus_step jk) ps st)). distinct (map fst (snd d))"
proof (induction ps arbitrary: st)
  case Nil
  then show ?case by simp
next
  case (Cons p ps)
  from Cons.IH [OF corpus_step_distinct [OF Cons.prems]] show ?case by simp
qed

lemma buildCorpus_distinct:
  "(i, v) \<in> set (documents (buildCorpus jk ps)) \<Longrightarrow> distinct (map fst v)"
  using fold_corpus_step_distinct [of "([], [])" jk ps]
  by (auto simp: buildCorpus_def Let_def keys_tfidf_weights)

section \<open>The similarity of a vector with itself\<close>

lemma rel_bounds:
  fixes x y :: real
  assumes "\<bar>y - x\<bar> \<le> \<bar>x\<bar> / 2 ^ 53" "0 < x"
  shows "(1 - 1 / 2 ^ 53) * x \<le> y" "y \<le> (1 + 1 / 2 ^ 53) * x"
proof -
  from assms have "\<bar>y - x\<bar> \<le> x / 2 ^ 53" by simp
  then have "y - x \<le> x / 2 ^ 53" "- (x / 2 ^ 53) \<le> y - x" by linarith+
  then show "(1 - 1 / 2 ^ 53) * x \<le> y" "y \<le> (1 + 1 / 2 ^ 53) * x"
    by (simp_all add: algebra_simps)
qed

lemma self_quotient:
  fixes s :: real
  assumes lo: "2 powi (- 1020) \<le> s" and hi: "s \<le> 2 powi 1020"
  shows "\<exists>d x. js_mul (js_sqrt (Fin s)) (js_sqrt (Fin s)) = Fin d \<and> d \<noteq> 0 \<and>
               js_div (Fin s) (Fin d) = Fin x \<and> \<bar>x - 1\<bar> \<le> 1 / 2 ^ 50"
proof -
  define u :: real where "u = 1 / 2 ^ 53"
  define L :: real where "L = 2 powi (- 1022)"
  define H :: real where "H = 2 powi 1023"
  note rel = to_double_rel [folded L_def H_def]
  have L0: "0 < L" by (simp add: L_def)
  have lo4: "4 * L \<le> s"
    using power_int_add [of "2::real" 2 "- 1022"] lo by (simp add: L_def)
  have hi4: "4 * s \<le> H"
  proof -
    have "(2::real) powi 1022 = 4 * 2 powi 1020"
      using power_int_add [of "2::real" 2 1020] by simp
    moreover have "(2::real) powi 1022 \<le> 2 powi 1023" by (rule powi_mono2) simp
    ultimately show ?thesis using hi by (simp add: H_def)
  qed
  have L_half: "L \<le> 1 / 2"
  proof -
    have "(2::real) powi (- 1022) \<le> 2 powi (- 1)" by (rule powi_mono2) simp
    then show ?thesis by (simp add: L_def power_int_minus)
  qed
  have H_two: "2 \<le> H"
  proof -
    have "(2::real) powi 1 \<le> 2 powi 1023" by (rule powi_mono2) simp
    then show ?thesis by (simp add: H_def)
  qed
  from lo4 L0 have s0: "0 < s" by linarith
  define a where "a = sqrt s"
  have a0: "0 < a" and aa: "a * a = s" using s0 by (simp_all add: a_def)
  have sq_lo: "(2 powi (- 510))\<^sup>2 = (2::real) powi (- 1020)"
    unfolding power2_eq_square by (subst power_int_add [symmetric]) simp_all
  have sq_hi: "(2 powi 510)\<^sup>2 = (2::real) powi 1020"
    unfolding power2_eq_square by (subst power_int_add [symmetric]) simp_all
  have a_lo: "L \<le> \<bar>a\<bar>"
  proof -
    have "2 powi (- 510) \<le> a" unfolding a_def by (rule real_le_rsqrt) (simp only: sq_lo lo)
    moreover have "(2::real) powi (- 1022) \<le> 2 powi (- 510)" by (rule powi_mono2) simp
    ultimately show ?thesis unfolding L_def by linarith
  qed
  have a_hi: "\<bar>a\<bar> \<le> H"
  proof -
    have "(0::real) \<le> 2 powi 510" by simp
    then have "a \<le> 2 powi 510" unfolding a_def by (rule real_le_lsqrt) (simp only: sq_hi hi)
    moreover have "(2::real) powi 510 \<le> 2 powi 1023" by (rule powi_mono2) simp
    ultimately show ?thesis unfolding H_def using a0 by linarith
  qed
  from rel [OF a_lo a_hi] obtain r where r: "to_double a = Fin r" "\<bar>r - a\<bar> \<le> \<bar>a\<bar> / 2 ^ 53"
    by blast
  from rel_bounds [OF r(2) a0] have rb: "(1 - u) * a \<le> r" "r \<le> (1 + u) * a" by (simp_all add: u_def)
  have u1: "0 < 1 - u" "1 - u \<le> 1" "1 \<le> 1 + u" "1 / 2 \<le> (1 - u) * (1 - u)" "(1 + u) * (1 + u) \<le> 2"
    by (simp_all add: u_def)
  have "0 < (1 - u) * a" using u1(1) a0 by (rule mult_pos_pos)
  with rb(1) have r0: "0 < r" by linarith
  have rr_lo: "(1 - u) * (1 - u) * s \<le> r * r"
  proof -
    have "((1 - u) * a) * ((1 - u) * a) \<le> r * r"
      using rb(1) u1(1) a0 r0 by (intro mult_mono) simp_all
    then show ?thesis by (simp add: aa [symmetric] algebra_simps)
  qed
  have rr_hi: "r * r \<le> (1 + u) * (1 + u) * s"
  proof -
    have "r * r \<le> ((1 + u) * a) * ((1 + u) * a)"
      using rb(2) r0 by (intro mult_mono) simp_all
    then show ?thesis by (simp add: aa [symmetric] algebra_simps)
  qed
  have rr0: "0 < r * r" using r0 by simp
  have rr_range: "L \<le> \<bar>r * r\<bar>" "\<bar>r * r\<bar> \<le> H"
  proof -
    have "1 / 2 * s \<le> (1 - u) * (1 - u) * s" using u1(4) s0 by (intro mult_right_mono) simp_all
    with rr_lo lo4 L0 show "L \<le> \<bar>r * r\<bar>" by linarith
    have "(1 + u) * (1 + u) * s \<le> 2 * s" using u1(5) s0 by (intro mult_right_mono) simp_all
    with rr_hi hi4 rr0 s0 show "\<bar>r * r\<bar> \<le> H" by linarith
  qed
  from rel [OF rr_range] obtain d where d: "to_double (r * r) = Fin d" "\<bar>d - r * r\<bar> \<le> \<bar>r * r\<bar> / 2 ^ 53"
    by blast
  from rel_bounds [OF d(2) rr0] have db: "(1 - u) * (r * r) \<le> d" "d \<le> (1 + u) * (r * r)"
    by (simp_all add: u_def)
  define c1 where "c1 = (1 - u) * ((1 - u) * (1 - u))"
  define c2 where "c2 = (1 + u) * ((1 + u) * (1 + u))"
  have c: "0 < c1" "1 / 2 \<le> c1" "c2 \<le> 2" "0 < c2"
    "(1 + u) / c1 \<le> 1 + 8 * u" "1 - 8 * u \<le> (1 - u) / c2"
    by (simp_all add: c1_def c2_def u_def field_simps)
  have d_lo: "c1 * s \<le> d"
  proof -
    have "(1 - u) * ((1 - u) * (1 - u) * s) \<le> (1 - u) * (r * r)"
      using rr_lo u1(1) by (intro mult_left_mono) simp_all
    with db(1) show ?thesis by (simp add: c1_def algebra_simps)
  qed
  have d_hi: "d \<le> c2 * s"
  proof -
    have "(1 + u) * (r * r) \<le> (1 + u) * ((1 + u) * (1 + u) * s)"
      using rr_hi u1(3) by (intro mult_left_mono) simp_all
    with db(2) show ?thesis by (simp add: c2_def algebra_simps)
  qed
  have "0 < c1 * s" using c(1) s0 by (rule mult_pos_pos)
  with d_lo have d0: "0 < d" by linarith
  define t where "t = s / d"
  have t0: "0 < t" using s0 d0 by (simp add: t_def)
  have t_hi: "t \<le> 1 / c1" using d_lo d0 c(1) s0 by (simp add: t_def field_simps)
  have t_lo: "1 / c2 \<le> t" using d_hi d0 c(4) s0 by (simp add: t_def field_simps)
  have t_range: "L \<le> \<bar>t\<bar>" "\<bar>t\<bar> \<le> H"
  proof -
    have "1 / 2 \<le> 1 / c2" using c(3,4) by (simp add: field_simps)
    with t_lo L_half show "L \<le> \<bar>t\<bar>" by linarith
    have "1 / c1 \<le> 2" using c(1,2) by (simp add: field_simps)
    with t_hi t0 H_two show "\<bar>t\<bar> \<le> H" by linarith
  qed
  from rel [OF t_range] obtain x where x: "to_double t = Fin x" "\<bar>x - t\<bar> \<le> \<bar>t\<bar> / 2 ^ 53"
    by blast
  from rel_bounds [OF x(2) t0] have xb: "(1 - u) * t \<le> x" "x \<le> (1 + u) * t"
    by (simp_all add: u_def)
  have "(1 + u) * t \<le> (1 + u) * (1 / c1)" using t_hi u1(3) by (intro mult_left_mono) simp_all
  with xb(2) c(5) have x_hi: "x \<le> 1 + 8 * u" by simp
  have "(1 - u) * (1 / c2) \<le> (1 - u) * t" using t_lo u1(1) by (intro mult_left_mono) simp_all
  with xb(1) c(6) have x_lo: "1 - 8 * u \<le> x" by simp
  have "\<bar>x - 1\<bar> \<le> 8 * u" using x_lo x_hi by (simp add: abs_le_iff)
  then have bound: "\<bar>x - 1\<bar> \<le> 1 / 2 ^ 50" by (simp add: u_def)
  have "js_sqrt (Fin s) = Fin r" using s0 r(1) by (simp add: a_def)
  then have "js_mul (js_sqrt (Fin s)) (js_sqrt (Fin s)) = Fin d" using d(1) by simp
  moreover have "js_div (Fin s) (Fin d) = Fin x" using d0 x(1) by (simp add: t_def)
  ultimately show ?thesis using d0 bound by blast
qed


lemma dot_product_self:
  assumes "distinct (map fst v)"
  shows "dot_product v v = norm_sq v"
  unfolding dot_product_def norm_sq_def
proof (rule fold_cong [OF refl refl])
  fix x assume "x \<in> set v"
  then have "map_of v (fst x) = Some (snd x)"
    by (simp add: map_of_eq_Some_iff [OF assms])
  then show "(case x of (term, weightA) \<Rightarrow> \<lambda>dotProduct.
               case map_of v term of
                 Some weightB \<Rightarrow> js_add dotProduct (js_mul (Fin weightA) (Fin weightB))
               | None \<Rightarrow> dotProduct) =
             (case x of (term, w) \<Rightarrow> \<lambda>n. js_add n (js_mul (Fin w) (Fin w)))"
    by (cases x) simp
qed

lemma norm_sq_zero:
  assumes "\<forall>x \<in> set v. snd x = 0"
  shows "norm_sq v = Fin 0"
proof -
  have "\<forall>x \<in> set xs. snd x = 0 \<Longrightarrow>
        fold (\<lambda>(term, w) n. js_add n (js_mul (Fin w) (Fin w))) xs (Fin 0) = Fin 0" for xs :: "(string \<times> real) list"
    by (induction xs) auto
  from this [OF assms] show ?thesis by (simp add: norm_sq_def)
qed

lemma cosineSimilarity_self:
  assumes "distinct (map fst v)"
  shows "cosineSimilarity v v =
         (if v = [] \<or> js_mul (js_sqrt (norm_sq v)) (js_sqrt (norm_sq v)) = Fin 0 then Fin 0
          else js_div (norm_sq v) (js_mul (js_sqrt (norm_sq v)) (js_sqrt (norm_sq v))))"
  by (simp add: cosineSimilarity_def Let_def dot_product_self [OF assms])

text \<open>
  Claim C7, as amended. Let \<open>v\<close> be a vector with pairwise distinct terms, as every
  document vector of a corpus built by \<open>buildCorpus\<close> is. If every weight of \<open>v\<close> is zero,
  as in a corpus of one document, where every weight is \<open>tf * ln (1 / 1) = 0\<close>, then
  \<open>cosineSimilarity v v\<close> is 0: the guard \<^verbatim>\<open>if (denominator === 0) return 0\<close> answers. If the
  rounded sum of squares \<open>s\<close> of \<open>v\<close> lies between \<open>2\<^sup>-\<^sup>1\<^sup>0\<^sup>2\<^sup>0\<close> and \<open>2\<^sup>1\<^sup>0\<^sup>2\<^sup>0\<close>, then
  \<open>cosineSimilarity v v\<close> is the rounded quotient of \<open>s\<close> by the rounded square of its
  rounded square root, a number within \<open>2\<^sup>-\<^sup>5\<^sup>0\<close> of 1 that need not be 1: for the vector
  \<open>{a: 1, b: 2}\<close> it is \<open>1 - 2\<^sup>-\<^sup>5\<^sup>2\<close>. Outside this range the result can be far from 1: the
  weight \<open>2\<^sup>-\<^sup>5\<^sup>4\<^sup>0\<close>, whose square rounds to zero, gives 0, and the weight \<open>2\<^sup>6\<^sup>0\<^sup>0\<close>, whose
  square is infinite, gives \<^verbatim>\<open>NaN\<close>.
\<close>

theorem self_similarity:
  assumes "distinct (map fst v) \<or> (\<exists>i. (i, v) \<in> set (documents (buildCorpus jk ps)))"
  shows "((\<forall>x \<in> set v. snd x = 0) \<longrightarrow> cosineSimilarity v v = Fin 0) \<and>
         (\<forall>s. norm_sq v = Fin s \<and> 2 powi (- 1020) \<le> s \<and> s \<le> 2 powi 1020 \<longrightarrow>
              (\<exists>x. cosineSimilarity v v = Fin x \<and> \<bar>x - 1\<bar> \<le> 1 / 2 ^ 50 \<and>
                   Fin x = js_div (Fin s) (js_mul (js_sqrt (Fin s)) (js_sqrt (Fin s)))))"
proof -
  from assms have dv: "distinct (map fst v)" using buildCorpus_distinct by blast
  note c = cosineSimilarity_self [OF dv]
  show ?thesis
  proof (intro conjI impI allI)
    assume "\<forall>x \<in> set v. snd x = 0"
    from norm_sq_zero [OF this] show "cosineSimilarity v v = Fin 0" by (simp add: c)
  next
    fix s assume s: "norm_sq v = Fin s \<and> 2 powi (- 1020) \<le> s \<and> s \<le> 2 powi 1020"
    then have n: "norm_sq v = Fin s" and lo: "2 powi (- 1020) \<le> s" and hi: "s \<le> 2 powi 1020"
      by auto
    from self_quotient [OF lo hi] obtain d x where
      d: "js_mul (js_sqrt (Fin s)) (js_sqrt (Fin s)) = Fin d" "d \<noteq> 0"
      and x: "js_div (Fin s) (Fin d) = Fin x" "\<bar>x - 1\<bar> \<le> 1 / 2 ^ 50" by blast
    have "v \<noteq> []"
    proof
      assume "v = []"
      then have "norm_sq v = Fin 0" by (simp add: norm_sq_def)
      with n have "s = 0" by simp
      moreover have "(0::real) < 2 powi (- 1020)" by simp
      ultimately show False using lo by linarith
    qed
    then have "cosineSimilarity v v = Fin x" using d x(1) by (simp add: c n)
    with x(2) d(1) x(1)
    show "\<exists>x. cosineSimilarity v v = Fin x \<and> \<bar>x - 1\<bar> \<le> 1 / 2 ^ 50 \<and>
              Fin x = js_div (Fin s) (js_mul (js_sqrt (Fin s)) (js_sqrt (Fin s)))"
      by simp
  qed
qed

lemma tok1: "tokenize ''Original Title'' = [''original'', ''title'']" by code_simp

lemma corpus1: "documents (buildCorpus no_keywords [test_paper]) = [(''W123'', [(''original'', 0), (''title'', 0)])]"
  by (simp add: buildCorpus_def corpus_step_def paper_text_def test_paper_def tok1 doc_id_def
      count_tokens_def normalize_tf_def max_count_def update_df_def set_add_def tfidf_weights_def)

lemma double_sqrt_5: "to_double (sqrt (5)) = Fin (629397181890197 / 281474976710656)"
  by (rule to_double_sqrt [where e = "1" and q = "- 51" and m = "5035177455121576"])
     (simp_all add: power_int_def power_one_over power2_eq_square)

lemma double_sqrt_5_sq: "to_double (396140812571321726461764698809 / 79228162514264337593543950336) = Fin (5629499534213121 / 1125899906842624)"
  by (rule to_double_eval [where e = "2" and q = "- 50" and m = "5629499534213121"])
     (simp_all add: power_int_def power_one_over)

lemma double_5_over: "to_double (5629499534213120 / 5629499534213121) = Fin (4503599627370495 / 4503599627370496)"
  by (rule to_double_eval [where e = "- 1" and q = "- 53" and m = "9007199254740990"])
     (simp_all add: power_int_def power_one_over)

lemma norm_sq_1_2: "norm_sq [(''a'', 1), (''b'', 2)] = Fin 5"
  by (simp add: norm_sq_def)

lemma double_tiny_sq: "to_double (tiny_weight * tiny_weight) = Fin 0"
  using to_double_eval [where e = "- 1080" and q = "- 1074" and m = 0
      and x = "tiny_weight * tiny_weight" and y = 0]
  by (simp add: tiny_weight_def power_int_def power_one_over)

lemma double_huge_sq: "to_double (huge_weight * huge_weight) = PosInfinity"
  by (rule to_double_overflow) (simp add: huge_weight_def power_int_def)

theorem self_similarity_counterexample:
  "documents (buildCorpus no_keywords [test_paper]) = [(''W123'', [(''original'', 0), (''title'', 0)])] \<and>
   cosineSimilarity [(''original'', 0), (''title'', 0)] [(''original'', 0), (''title'', 0)] = Fin 0 \<and>
   cosineSimilarity [(''a'', 1), (''b'', 2)] [(''a'', 1), (''b'', 2)] = Fin (1 - 1 / 2 ^ 52) \<and>
   cosineSimilarity [(''a'', tiny_weight)] [(''a'', tiny_weight)] = Fin 0 \<and>
   cosineSimilarity [(''a'', huge_weight)] [(''a'', huge_weight)] = NaN"
  by (simp add: corpus1 cosineSimilarity_def dot_product_def norm_sq_def
      double_sqrt_5 double_sqrt_5_sq double_5_over double_tiny_sq double_huge_sq
      js_signed_inf_def)

theorem self_similarity_witness:
  "distinct (map fst [(''a'', 1::real), (''b'', 2)]) \<and>
   norm_sq [(''a'', 1), (''b'', 2)] = Fin 5 \<and> 2 powi (- 1020) \<le> (5::real) \<and> (5::real) \<le> 2 powi 1020 \<and>
   (\<exists>x. cosineSimilarity [(''a'', 1), (''b'', 2)] [(''a'', 1), (''b'', 2)] = Fin x \<and>
        \<bar>x - 1\<bar> \<le> 1 / 2 ^ 50) \<and>
   (''W123'', [(''original'', 0), (''title'', 0)]) \<in> set (documents (buildCorpus no_keywords [test_paper])) \<and>
   list_all (\<lambda>x. snd x = 0) [(''original'', 0::real), (''title'', 0)] \<and>
   cosineSimilarity [(''original'', 0), (''title'', 0)] [(''original'', 0), (''title'', 0)] = Fin 0"
proof -
  have h1: "distinct (map fst [(''a'', 1::real), (''b'', 2)])" by simp
  have h2: "norm_sq [(''a'', 1), (''b'', 2)] = Fin 5 \<and> 2 powi (- 1020) \<le> (5::real) \<and> (5::real) \<le> 2 powi 1020"
    by (simp add: norm_sq_1_2 power_int_def power_one_over)
  have h3: "(''W123'', [(''original'', 0), (''title'', 0)]) \<in> set (documents (buildCorpus no_keywords [test_paper]))"
    by (simp add: corpus1)
  have h4: "\<forall>x \<in> set [(''original'', 0::real), (''title'', 0)]. snd x = 0" by simp
  from self_similarity [OF disjI1 [OF h1]] h2
  have a: "\<exists>x. cosineSimilarity [(''a'', 1), (''b'', 2)] [(''a'', 1), (''b'', 2)] = Fin x \<and>
        \<bar>x - 1\<bar> \<le> 1 / 2 ^ 50" by blast
  have h5: "distinct (map fst [(''original'', 0::real), (''title'', 0)]) \<or>
      (\<exists>i. (i, [(''original'', 0), (''title'', 0)]) \<in> set (documents (buildCorpus no_keywords [test_paper])))"
    using h3 by blast
  from self_similarity [OF h5] h4
  have b: "cosineSimilarity [(''original'', 0), (''title'', 0)] [(''original'', 0), (''title'', 0)] = Fin 0"
    by blast
  from h1 h2 h3 h4 a b show ?thesis unfolding list_all_iff by blast
qed

section \<open>Properties of the analytic edges\<close>

lemma unordered_pair_similarity_edge [simp]:
  "unordered_pair (similarity_edge a b s k t) = (min a b, max a b)"
  by (simp add: unordered_pair_def similarity_edge_def)

lemma type_similarity_edge [simp]: "type (similarity_edge a b s k t) = SIMILAR_TEXT"
  by (simp add: similarity_edge_def)

lemma neighbor_step_inv: "sim_inv st \<Longrightarrow> sim_inv (neighbor_step m a k t n st)"
  by (auto simp: sim_inv_def neighbor_step_def Let_def split: option.splits)

lemma fold_neighbor_step_inv: "sim_inv st \<Longrightarrow> sim_inv (fold (neighbor_step m a k t) ns st)"
  by (induction ns arbitrary: st) (simp_all add: neighbor_step_inv)

lemma fold_outer_inv:
  "sim_inv st \<Longrightarrow>
   sim_inv (fold (\<lambda>(sourceId, paperId) st.
                  fold (neighbor_step m paperId k t) (findTopKSimilar sourceId corpus k t) st) xs st)"
proof (induction xs arbitrary: st)
  case Nil
  then show ?case by simp
next
  case (Cons x xs)
  obtain sourceId paperId where x: "x = (sourceId, paperId)" by (cases x)
  from Cons.IH [OF fold_neighbor_step_inv [OF Cons.prems]] show ?case by (simp add: x)
qed

lemma buildSimilarityEdges_inv:
  "distinct (map unordered_pair (buildSimilarityEdges m corpus k t)) \<and>
   list_all (\<lambda>e. type e = SIMILAR_TEXT) (buildSimilarityEdges m corpus k t)"
  using fold_outer_inv [of "([], {})" m k t corpus m]
  by (simp add: sim_inv_def buildSimilarityEdges_def)



lemma distinct_fold_map_set_key:
  "distinct (map fst m) \<Longrightarrow>
   distinct (map fst (fold (\<lambda>x m. map_set (g x) (f x m) m) xs m))"
  by (induction xs arbitrary: m) (simp_all add: distinct_map_set)

lemma cites_refs_keys: "distinct (map fst (cites_refs es))"
  unfolding cites_refs_def
  by (rule distinct_fold_map_set_key) simp

lemma distinct_set_add: "distinct s \<Longrightarrow> distinct (set_add k s)"
  by (simp add: set_add_def)

lemma refs_ok_map_set:
  "refs_ok m \<Longrightarrow> distinct v \<Longrightarrow> refs_ok (map_set k v m)"
  by (induction k v m rule: map_set.induct) (auto simp: refs_ok_def)

lemma refs_ok_lookup:
  "refs_ok m \<Longrightarrow> distinct (case map_of m k of Some refs \<Rightarrow> refs | None \<Rightarrow> [])"
  by (auto simp: refs_ok_def list_all_iff split: option.splits dest!: map_of_SomeD)

lemma cites_refs_ok: "refs_ok (cites_refs es)"
proof -
  have "refs_ok m \<Longrightarrow> refs_ok (fold (\<lambda>e m. map_set (src_paper_id e)
                    (set_add (dst_paper_id e)
                       (case map_of m (src_paper_id e) of Some refs \<Rightarrow> refs | None \<Rightarrow> [])) m) xs m)"
    for xs m
    by (induction xs arbitrary: m) (simp_all add: refs_ok_map_set distinct_set_add refs_ok_lookup)
  from this [of "[]"] show ?thesis by (simp add: cites_refs_def refs_ok_def)
qed



lemma min_less_max: "(a::nat) \<noteq> b \<Longrightarrow> min a b < max a b"
  by (simp add: min_def max_def)

lemma ref_pairs_ordered: "distinct xs \<Longrightarrow> list_all (\<lambda>p. fst p < snd p) (ref_pairs xs)"
proof (induction xs)
  case Nil
  then show ?case by simp
next
  case (Cons a xs)
  then have "\<forall>y \<in> set xs. min a y < max a y"
    by (auto intro!: min_less_max)
  with Cons show ?case by (auto simp: list_all_iff)
qed

lemma set_keys_map_set: "fst ` set (map_set k v m) = insert k (fst ` set m)"
  by (induction k v m rule: map_set.induct) auto

lemma keys_fold_map_set:
  "fst ` set (fold (\<lambda>k m. map_set k (f k m) m) ks m) = set ks \<union> fst ` set m"
  by (induction ks arbitrary: m) (simp_all add: set_keys_map_set)

lemma pair_counts_keys:
  assumes ok: "refs_ok m"
  shows "list_all (\<lambda>kc. fst (fst kc) < snd (fst kc)) (pair_counts m)"
proof -
  have a: "p \<in> set (concat (map (\<lambda>(citer, refs). ref_pairs refs) m)) \<Longrightarrow> fst p < snd p" for p
  proof -
    assume "p \<in> set (concat (map (\<lambda>(citer, refs). ref_pairs refs) m))"
    then obtain citer refs where cr: "(citer, refs) \<in> set m" "p \<in> set (ref_pairs refs)" by auto
    with ok have "distinct refs" by (auto simp: refs_ok_def list_all_iff)
    from ref_pairs_ordered [OF this] cr(2) show ?thesis by (simp add: list_all_iff)
  qed
  have "fst ` set (pair_counts m) = set (concat (map (\<lambda>(citer, refs). ref_pairs refs) m))"
    unfolding pair_counts_def by (subst keys_fold_map_set) simp
  then have "kc \<in> set (pair_counts m) \<Longrightarrow> fst kc \<in> set (concat (map (\<lambda>(citer, refs). ref_pairs refs) m))" for kc
    by (metis imageI)
  with a show ?thesis unfolding list_all_iff by blast
qed

lemma pair_counts_distinct: "distinct (map fst (pair_counts m))"
  unfolding pair_counts_def by (rule distinct_fold_map_set) simp

lemma computeCoCitation_ok:
  "list_all (\<lambda>e. src_paper_id e < dst_paper_id e \<and> type e = CO_CITED) (computeCoCitation es) \<and>
   distinct (map unordered_pair (computeCoCitation es))"
proof -
  let ?pc = "pair_counts (cites_refs es)"
  let ?mx = "fold max (map snd ?pc) 1"
  have ord: "list_all (\<lambda>kc. fst (fst kc) < snd (fst kc)) ?pc"
    by (rule pair_counts_keys [OF cites_refs_ok])
  have 1: "list_all (\<lambda>e. src_paper_id e < dst_paper_id e \<and> type e = CO_CITED) (map (cocitation_edge ?mx) ?pc)"
    using ord by (simp add: list_all_iff cocitation_edge_def)
  have "map unordered_pair (map (cocitation_edge ?mx) ?pc) = map fst ?pc"
    unfolding map_map
  proof (rule map_cong [OF refl])
    fix kc assume "kc \<in> set ?pc"
    with ord have "fst (fst kc) < snd (fst kc)" by (simp add: list_all_iff)
    then show "(unordered_pair \<circ> cocitation_edge ?mx) kc = fst kc"
      by (simp add: unordered_pair_def cocitation_edge_def min_def max_def)
  qed
  then have 2: "distinct (map unordered_pair (map (cocitation_edge ?mx) ?pc))"
    using pair_counts_distinct [of "cites_refs es"] by (simp only:)
  from 1 2 show ?thesis
    unfolding computeCoCitation_def Let_def by (rule conjI)
qed



lemma coupling_edge_props:
  "e \<in> set (coupling_edge a refsA pb) \<Longrightarrow>
   src_paper_id e = a \<and> dst_paper_id e = fst pb \<and> type e = BIB_COUPLED"
  by (auto simp: coupling_edge_def Let_def split: if_splits)

lemma coupling_row_props:
  "e \<in> set (concat (map (coupling_edge a refsA) rest)) \<Longrightarrow>
   src_paper_id e = a \<and> dst_paper_id e \<in> fst ` set rest \<and> type e = BIB_COUPLED"
proof -
  assume "e \<in> set (concat (map (coupling_edge a refsA) rest))"
  then obtain pb where pb: "pb \<in> set rest" "e \<in> set (coupling_edge a refsA pb)" by auto
  from coupling_edge_props [OF pb(2)] pb(1) show ?thesis by auto
qed

lemma coupling_row_distinct:
  "distinct (map fst rest) \<Longrightarrow>
   distinct (map dst_paper_id (concat (map (coupling_edge a refsA) rest)))"
proof (induction rest)
  case Nil
  then show ?case by simp
next
  case (Cons pb rest)
  have 1: "distinct (map dst_paper_id (coupling_edge a refsA pb))"
    by (simp add: coupling_edge_def Let_def)
  have 2: "distinct (map dst_paper_id (concat (map (coupling_edge a refsA) rest)))"
    using Cons by simp
  have 3: "set (map dst_paper_id (coupling_edge a refsA pb)) \<inter>
           set (map dst_paper_id (concat (map (coupling_edge a refsA) rest))) = {}"
  proof -
    have "set (map dst_paper_id (coupling_edge a refsA pb)) \<subseteq> {fst pb}"
    proof
      fix x assume "x \<in> set (map dst_paper_id (coupling_edge a refsA pb))"
      then obtain e where "e \<in> set (coupling_edge a refsA pb)" "x = dst_paper_id e" by auto
      with coupling_edge_props [of e a refsA pb] show "x \<in> {fst pb}" by simp
    qed
    moreover have "set (map dst_paper_id (concat (map (coupling_edge a refsA) rest))) \<subseteq> fst ` set rest"
    proof
      fix x assume "x \<in> set (map dst_paper_id (concat (map (coupling_edge a refsA) rest)))"
      then obtain e where "e \<in> set (concat (map (coupling_edge a refsA) rest))" "x = dst_paper_id e"
        by (auto simp del: set_concat)
      with coupling_row_props [of e a refsA rest] show "x \<in> fst ` set rest" by simp
    qed
    moreover have "fst pb \<notin> fst ` set rest" using Cons.prems by simp
    ultimately show ?thesis by blast
  qed
  from 1 2 3 show ?case by simp
qed

lemma coupling_loop_props:
  "e \<in> set (coupling_loop l) \<Longrightarrow>
   src_paper_id e \<in> fst ` set l \<and> dst_paper_id e \<in> fst ` set l \<and> type e = BIB_COUPLED"
proof (induction l rule: coupling_loop.induct)
  case 1
  then show ?case by simp
next
  case (2 a refsA rest)
  from "2.prems" consider
    (h) "e \<in> set (concat (map (coupling_edge a refsA) rest))" | (t) "e \<in> set (coupling_loop rest)"
    by (auto split: if_splits)
  then show ?case
  proof cases
    case h
    from coupling_row_props [OF h] show ?thesis by simp
  next
    case t
    from "2.IH" [OF t] show ?thesis by simp
  qed
qed

lemma unordered_pair_mem:
  "unordered_pair e = unordered_pair e' \<Longrightarrow>
   src_paper_id e = src_paper_id e' \<and> dst_paper_id e = dst_paper_id e' \<or>
   src_paper_id e = dst_paper_id e' \<and> dst_paper_id e = src_paper_id e'"
  by (auto simp: unordered_pair_def min_def max_def split: if_splits)

lemma coupling_loop_distinct:
  "distinct (map fst l) \<Longrightarrow>
   distinct (map unordered_pair (coupling_loop l)) \<and>
   list_all (\<lambda>e. src_paper_id e \<noteq> dst_paper_id e) (coupling_loop l)"
proof (induction l rule: coupling_loop.induct)
  case 1
  then show ?case by simp
next
  case (2 a refsA rest)
  let ?H = "concat (map (coupling_edge a refsA) rest)"
  let ?T = "coupling_loop rest"
  from "2.prems" have d: "distinct (map fst rest)" and a: "a \<notin> fst ` set rest" by auto
  from "2.IH" [OF d] have T1: "distinct (map unordered_pair ?T)"
    and T2: "list_all (\<lambda>e. src_paper_id e \<noteq> dst_paper_id e) ?T" by auto
  have H2: "list_all (\<lambda>e. src_paper_id e \<noteq> dst_paper_id e) ?H"
    unfolding list_all_iff using coupling_row_props [of _ a refsA rest] a by metis
  have H1: "distinct (map unordered_pair ?H)"
  proof -
    have "inj_on unordered_pair (set ?H)"
    proof (rule inj_onI)
      fix e e' assume e: "e \<in> set ?H" and e': "e' \<in> set ?H" and eq: "unordered_pair e = unordered_pair e'"
      from coupling_row_props [OF e] coupling_row_props [OF e'] a unordered_pair_mem [OF eq]
      have "dst_paper_id e = dst_paper_id e'" by metis
      moreover have "inj_on dst_paper_id (set ?H)" "distinct ?H"
        using coupling_row_distinct [OF d, of a refsA] by (simp_all add: distinct_map)
      ultimately show "e = e'" using e e' by (auto dest: inj_onD)
    qed
    moreover have "distinct ?H"
      using coupling_row_distinct [OF d, of a refsA] by (simp add: distinct_map)
    ultimately show ?thesis by (simp add: distinct_map)
  qed
  have HT: "unordered_pair ` set ?H \<inter> unordered_pair ` set ?T = {}"
  proof (rule ccontr)
    assume "unordered_pair ` set ?H \<inter> unordered_pair ` set ?T \<noteq> {}"
    then obtain p where p: "p \<in> unordered_pair ` set ?H" "p \<in> unordered_pair ` set ?T" by blast
    from p(1) obtain e where e: "e \<in> set ?H" and pe: "p = unordered_pair e" by (rule imageE)
    from p(2) obtain e' where e': "e' \<in> set ?T" and pe': "p = unordered_pair e'" by (rule imageE)
    from pe pe' have eq: "unordered_pair e = unordered_pair e'" by simp
    from coupling_row_props [OF e] coupling_loop_props [OF e'] unordered_pair_mem [OF eq] a
    show False by metis
  qed
  show ?case
  proof (cases "length refsA = 0")
    case True
    with T1 T2 show ?thesis by simp
  next
    case False
    with T1 T2 H1 H2 HT show ?thesis by simp
  qed
qed

lemma computeBibCoupling_ok:
  "list_all (\<lambda>e. src_paper_id e \<noteq> dst_paper_id e \<and> type e = BIB_COUPLED) (computeBibCoupling es) \<and>
   distinct (map unordered_pair (computeBibCoupling es))"
  using coupling_loop_distinct [OF cites_refs_keys, of es] coupling_loop_props [of _ "cites_refs es"]
  by (auto simp: computeBibCoupling_def list_all_iff)

lemma keys_fold_set_add:
  "map fst (fold (\<lambda>e m. map_set (f e) (g e m) m) xs m) = fold set_add (map f xs) (map fst m)"
  by (induction xs arbitrary: m) (simp_all add: map_set_keys set_add_def)

lemma keys_cites_refs: "map fst (cites_refs es) = first_citers es"
  by (simp add: cites_refs_def first_citers_def keys_fold_set_add)

lemma precedes_head: "y \<in> set ys \<Longrightarrow> precedes x y (x # ys)"
  by (simp add: precedes_def)

lemma precedes_tail: "precedes x y ys \<Longrightarrow> x \<noteq> a \<Longrightarrow> precedes x y (a # ys)"
  by (simp add: precedes_def)

lemma coupling_loop_order:
  "distinct (map fst l) \<Longrightarrow> e \<in> set (coupling_loop l) \<Longrightarrow>
   precedes (src_paper_id e) (dst_paper_id e) (map fst l)"
proof (induction l rule: coupling_loop.induct)
  case 1
  then show ?case by simp
next
  case (2 a refsA rest)
  from "2.prems" have d: "distinct (map fst rest)" and a: "a \<notin> fst ` set rest" by auto
  from "2.prems"(2) consider
    (h) "e \<in> set (concat (map (coupling_edge a refsA) rest))" | (t) "e \<in> set (coupling_loop rest)"
    by (auto split: if_splits)
  then show ?case
  proof cases
    case h
    from coupling_row_props [OF h] have "src_paper_id e = a" "dst_paper_id e \<in> set (map fst rest)"
      by auto
    then show ?thesis by (simp add: precedes_head)
  next
    case t
    from coupling_loop_props [OF t] a have "src_paper_id e \<noteq> a" by auto
    with "2.IH" [OF d t] show ?thesis by (simp add: precedes_tail)
  qed
qed

lemma computeBibCoupling_order:
  "e \<in> set (computeBibCoupling es) \<Longrightarrow>
   precedes (src_paper_id e) (dst_paper_id e) (first_citers es)"
  using coupling_loop_order [OF cites_refs_keys, of e es]
  by (simp add: computeBibCoupling_def keys_cites_refs)

lemma set_slice0: "set (slice0 k xs) \<subseteq> set xs"
  by (auto simp: slice0_def dest: in_set_takeD)

lemma findTopKSimilar_mem:
  assumes "n \<in> set (findTopKSimilar d corpus k th)"
  shows "fst n \<noteq> d \<and> js_ge (snd n) th"
proof (cases "map_of (documents corpus) d")
  case None
  with assms show ?thesis by (simp add: findTopKSimilar_def)
next
  case (Some v)
  let ?xs = "sort_key (\<lambda>n. descending (snd n))
               (filter (\<lambda>n. js_ge (snd n) th)
                  (map (\<lambda>(otherId, otherVector). (otherId, cosineSimilarity v otherVector))
                     (filter (\<lambda>(otherId, otherVector). otherId \<noteq> d) (documents corpus))))"
  from assms Some have "n \<in> set (slice0 k ?xs)" by (simp add: findTopKSimilar_def)
  with set_slice0 [of k ?xs] have "n \<in> set ?xs" by blast
  then show ?thesis by auto
qed

lemma neighbor_step_from:
  assumes "\<forall>e \<in> set (fst st). \<exists>sourceId n. (sourceId, src_paper_id e) \<in> set m \<and>
              n \<in> set (findTopKSimilar sourceId corpus k t) \<and>
              map_of m (fst n) = Some (dst_paper_id e) \<and> weight e = snd n"
    and "(sourceId, a) \<in> set m" "n \<in> set (findTopKSimilar sourceId corpus k t)"
  shows "\<forall>e \<in> set (fst (neighbor_step m a k t n st)). \<exists>sourceId n. (sourceId, src_paper_id e) \<in> set m \<and>
              n \<in> set (findTopKSimilar sourceId corpus k t) \<and>
              map_of m (fst n) = Some (dst_paper_id e) \<and> weight e = snd n"
proof (cases "map_of m (fst n)")
  case None
  with assms(1) show ?thesis by (simp add: neighbor_step_def)
next
  case (Some b)
  have "\<exists>sourceId n'. (sourceId, src_paper_id (similarity_edge a b (snd n) k t)) \<in> set m \<and>
              n' \<in> set (findTopKSimilar sourceId corpus k t) \<and>
              map_of m (fst n') = Some (dst_paper_id (similarity_edge a b (snd n) k t)) \<and>
              weight (similarity_edge a b (snd n) k t) = snd n'"
    using assms(2,3) Some by (intro exI [of _ sourceId] exI [of _ n]) (simp add: similarity_edge_def)
  with assms(1) Some show ?thesis by (auto simp: neighbor_step_def Let_def)
qed

lemma fold_neighbor_step_from:
  assumes "\<forall>e \<in> set (fst st). \<exists>sourceId n. (sourceId, src_paper_id e) \<in> set m \<and>
              n \<in> set (findTopKSimilar sourceId corpus k t) \<and>
              map_of m (fst n) = Some (dst_paper_id e) \<and> weight e = snd n"
    and "(sourceId, a) \<in> set m" "set ns \<subseteq> set (findTopKSimilar sourceId corpus k t)"
  shows "\<forall>e \<in> set (fst (fold (neighbor_step m a k t) ns st)). \<exists>sourceId n. (sourceId, src_paper_id e) \<in> set m \<and>
              n \<in> set (findTopKSimilar sourceId corpus k t) \<and>
              map_of m (fst n) = Some (dst_paper_id e) \<and> weight e = snd n"
  using assms
proof (induction ns arbitrary: st)
  case Nil
  then show ?case by simp
next
  case (Cons n ns)
  from Cons.prems(3) have n: "n \<in> set (findTopKSimilar sourceId corpus k t)"
    and ns: "set ns \<subseteq> set (findTopKSimilar sourceId corpus k t)" by auto
  from Cons.IH [OF neighbor_step_from [OF Cons.prems(1,2) n] Cons.prems(2) ns]
  show ?case by simp
qed

lemma fold_outer_from:
  assumes "\<forall>e \<in> set (fst st). \<exists>sourceId n. (sourceId, src_paper_id e) \<in> set m \<and>
              n \<in> set (findTopKSimilar sourceId corpus k t) \<and>
              map_of m (fst n) = Some (dst_paper_id e) \<and> weight e = snd n"
    and "set xs \<subseteq> set m"
  shows "\<forall>e \<in> set (fst (fold (\<lambda>(sourceId, paperId) st.
                  fold (neighbor_step m paperId k t) (findTopKSimilar sourceId corpus k t) st) xs st)).
           \<exists>sourceId n. (sourceId, src_paper_id e) \<in> set m \<and>
              n \<in> set (findTopKSimilar sourceId corpus k t) \<and>
              map_of m (fst n) = Some (dst_paper_id e) \<and> weight e = snd n"
  using assms
proof (induction xs arbitrary: st)
  case Nil
  then show ?case by simp
next
  case (Cons x xs)
  obtain sourceId paperId where x: "x = (sourceId, paperId)" by (cases x)
  from Cons.prems(2) have mem: "(sourceId, paperId) \<in> set m" and xs: "set xs \<subseteq> set m"
    by (auto simp: x)
  from Cons.IH [OF fold_neighbor_step_from [OF Cons.prems(1) mem subset_refl] xs]
  show ?case by (simp add: x)
qed

lemma buildSimilarityEdges_from:
  assumes "e \<in> set (buildSimilarityEdges m corpus k t)"
  shows "\<exists>sourceId n. (sourceId, src_paper_id e) \<in> set m \<and>
              n \<in> set (findTopKSimilar sourceId corpus k t) \<and> fst n \<noteq> sourceId \<and>
              map_of m (fst n) = Some (dst_paper_id e) \<and> weight e = snd n \<and> js_ge (weight e) t"
proof -
  have "\<forall>e \<in> set (fst ([], {}) :: edge list). \<exists>sourceId n. (sourceId, src_paper_id e) \<in> set m \<and>
              n \<in> set (findTopKSimilar sourceId corpus k t) \<and>
              map_of m (fst n) = Some (dst_paper_id e) \<and> weight e = snd n" by simp
  from fold_outer_from [OF this subset_refl] assms
  obtain sourceId n where n: "(sourceId, src_paper_id e) \<in> set m"
    "n \<in> set (findTopKSimilar sourceId corpus k t)" "map_of m (fst n) = Some (dst_paper_id e)"
    "weight e = snd n"
    unfolding buildSimilarityEdges_def by blast
  from findTopKSimilar_mem [OF n(2)] n show ?thesis
    by (intro exI [of _ sourceId] exI [of _ n]) simp
qed

lemma buildSimilarityEdges_no_loop:
  assumes "distinct (map snd m)" "e \<in> set (buildSimilarityEdges m corpus k t)"
  shows "src_paper_id e \<noteq> dst_paper_id e"
proof
  assume eq: "src_paper_id e = dst_paper_id e"
  from buildSimilarityEdges_from [OF assms(2)] obtain sourceId n where
    "(sourceId, src_paper_id e) \<in> set m \<and>
              n \<in> set (findTopKSimilar sourceId corpus k t) \<and> fst n \<noteq> sourceId \<and>
              map_of m (fst n) = Some (dst_paper_id e) \<and> weight e = snd n \<and> js_ge (weight e) t"
    by blast
  then have n: "(sourceId, src_paper_id e) \<in> set m" "fst n \<noteq> sourceId"
    "map_of m (fst n) = Some (dst_paper_id e)" by simp_all
  from n(3) have "(fst n, src_paper_id e) \<in> set m" by (simp add: eq map_of_SomeD)
  with n(1) assms(1) have "fst n = sourceId"
    by (metis distinct_map inj_on_def snd_conv prod.inject)
  with n(2) show False by simp
qed

text \<open>
  Claim C1, as amended. In the output of each of \<open>buildSimilarityEdges\<close>,
  \<open>computeCoCitation\<close> and \<open>computeBibCoupling\<close>, every unordered pair of papers appears in
  at most one edge, and every edge has the type of its builder. Every \<^verbatim>\<open>CO_CITED\<close> edge has
  \<open>src_paper_id < dst_paper_id\<close>. A \<^verbatim>\<open>BIB_COUPLED\<close> edge joins two different citing papers
  and goes from the one that cites first in the edge list to the other. A \<^verbatim>\<open>SIMILAR_TEXT\<close>
  edge goes from a paper of the id map to one of the neighbours that \<open>findTopKSimilar\<close>
  returns for it, a document other than its own; its weight is the similarity of that
  neighbour, which is at least the threshold; and its two ends differ when the id map
  gives different ids to different documents. For these two types the source id may be
  the greater one, and an id map that gives one id to two documents yields an edge from a
  paper to itself, as the counterexample shows.
\<close>

theorem analytic_edges_pairs:
  "distinct (map unordered_pair (buildSimilarityEdges idMap corpus k th)) \<and>
   (\<forall>e \<in> set (buildSimilarityEdges idMap corpus k th).
      type e = SIMILAR_TEXT \<and>
      (\<exists>sourceId n. (sourceId, src_paper_id e) \<in> set idMap \<and>
         n \<in> set (findTopKSimilar sourceId corpus k th) \<and> fst n \<noteq> sourceId \<and>
         map_of idMap (fst n) = Some (dst_paper_id e) \<and> weight e = snd n \<and> js_ge (weight e) th) \<and>
      (distinct (map snd idMap) \<longrightarrow> src_paper_id e \<noteq> dst_paper_id e)) \<and>
   distinct (map unordered_pair (computeCoCitation es)) \<and>
   (\<forall>e \<in> set (computeCoCitation es). src_paper_id e < dst_paper_id e \<and> type e = CO_CITED) \<and>
   distinct (map unordered_pair (computeBibCoupling es)) \<and>
   (\<forall>e \<in> set (computeBibCoupling es).
      src_paper_id e \<noteq> dst_paper_id e \<and> type e = BIB_COUPLED \<and>
      precedes (src_paper_id e) (dst_paper_id e) (first_citers es))"
proof (intro conjI ballI impI)
  show "distinct (map unordered_pair (buildSimilarityEdges idMap corpus k th))"
    using buildSimilarityEdges_inv [of idMap corpus k th] by simp
  show "distinct (map unordered_pair (computeCoCitation es))"
    using computeCoCitation_ok [of es] by simp
  show "distinct (map unordered_pair (computeBibCoupling es))"
    using computeBibCoupling_ok [of es] by simp
next
  fix e assume e: "e \<in> set (buildSimilarityEdges idMap corpus k th)"
  show "type e = SIMILAR_TEXT"
    using buildSimilarityEdges_inv [of idMap corpus k th] e by (simp add: list_all_iff)
  show "\<exists>sourceId n. (sourceId, src_paper_id e) \<in> set idMap \<and>
         n \<in> set (findTopKSimilar sourceId corpus k th) \<and> fst n \<noteq> sourceId \<and>
         map_of idMap (fst n) = Some (dst_paper_id e) \<and> weight e = snd n \<and> js_ge (weight e) th"
    by (rule buildSimilarityEdges_from [OF e])
  show "src_paper_id e \<noteq> dst_paper_id e" if "distinct (map snd idMap)"
    by (rule buildSimilarityEdges_no_loop [OF that e])
next
  fix e assume e: "e \<in> set (computeCoCitation es)"
  with computeCoCitation_ok [of es] show "src_paper_id e < dst_paper_id e" "type e = CO_CITED"
    by (simp_all add: list_all_iff)
next
  fix e assume e: "e \<in> set (computeBibCoupling es)"
  with computeBibCoupling_ok [of es] show "src_paper_id e \<noteq> dst_paper_id e" "type e = BIB_COUPLED"
    by (simp_all add: list_all_iff)
  show "precedes (src_paper_id e) (dst_paper_id e) (first_citers es)"
    by (rule computeBibCoupling_order [OF e])
qed

text \<open>The similarities in the hand-made corpus: \<open>4/5\<close>, \<open>24/25\<close> and \<open>3/5\<close>, rounded.\<close>

lemma sqrt_25: "sqrt 25 = 5"
  by (rule real_sqrt_unique) simp_all

lemma double_4_5: "to_double (4 / 5) = Fin (3602879701896397 / 4503599627370496)"
  by (rule to_double_eval [where e = "- 1" and q = "- 53" and m = "7205759403792794"])
     (simp_all add: power_int_def power_one_over)

lemma double_24_25: "to_double (24 / 25) = Fin (1080863910568919 / 1125899906842624)"
  by (rule to_double_eval [where e = "- 1" and q = "- 53" and m = "8646911284551352"])
     (simp_all add: power_int_def power_one_over)

lemma double_3_5: "to_double (3 / 5) = Fin (5404319552844595 / 9007199254740992)"
  by (rule to_double_eval [where e = "- 1" and q = "- 53" and m = "5404319552844595"])
     (simp_all add: power_int_def power_one_over)

lemma three_docs_cosines:
  "cosineSimilarity [(''x'', 3), (''y'', 4)] [(''y'', 1)] = Fin (7205759403792794 / 2 ^ 53)"
  "cosineSimilarity [(''x'', 3), (''y'', 4)] [(''x'', 4), (''y'', 3)] = Fin (8646911284551352 / 2 ^ 53)"
  "cosineSimilarity [(''y'', 1)] [(''x'', 3), (''y'', 4)] = Fin (7205759403792794 / 2 ^ 53)"
  "cosineSimilarity [(''y'', 1)] [(''x'', 4), (''y'', 3)] = Fin (5404319552844595 / 2 ^ 53)"
  "cosineSimilarity [(''x'', 4), (''y'', 3)] [(''x'', 3), (''y'', 4)] = Fin (8646911284551352 / 2 ^ 53)"
  "cosineSimilarity [(''x'', 4), (''y'', 3)] [(''y'', 1)] = Fin (5404319552844595 / 2 ^ 53)"
  by (simp_all add: cosineSimilarity_def dot_product_def norm_sq_def sqrt_25
      double_4_5 double_24_25 double_3_5)

lemma three_docs_neighbors:
  "findTopKSimilar ''A'' three_docs 1 (1 / 4) = [(''C'', Fin (8646911284551352 / 2 ^ 53))]"
  "findTopKSimilar ''B'' three_docs 1 (1 / 4) = [(''A'', Fin (7205759403792794 / 2 ^ 53))]"
  "findTopKSimilar ''C'' three_docs 1 (1 / 4) = [(''A'', Fin (8646911284551352 / 2 ^ 53))]"
  by (simp_all add: findTopKSimilar_def three_docs_def three_docs_cosines slice0_def)

theorem analytic_edges_counterexample:
  "map (\<lambda>e. (src_paper_id e, dst_paper_id e, type e))
     (computeBibCoupling [cites_edge 2 3, cites_edge 1 3]) = [(2, 1, BIB_COUPLED)] \<and>
   map (\<lambda>e. (src_paper_id e, dst_paper_id e, type e))
     (buildSimilarityEdges [(''A'', 1), (''B'', 2), (''C'', 3)] three_docs 1 (1 / 4))
     = [(1, 3, SIMILAR_TEXT), (2, 1, SIMILAR_TEXT)] \<and>
   map (\<lambda>e. (src_paper_id e, dst_paper_id e, type e))
     (buildSimilarityEdges [(''A'', 1), (''B'', 2), (''C'', 1)] three_docs 1 (1 / 4))
     = [(1, 1, SIMILAR_TEXT), (2, 1, SIMILAR_TEXT)]"
proof -
  have a: "map (\<lambda>e. (src_paper_id e, dst_paper_id e, type e))
     (computeBibCoupling [cites_edge 2 3, cites_edge 1 3]) = [(2, 1, BIB_COUPLED)]"
    by (simp add: computeBibCoupling_def cites_refs_def cites_edge_def set_add_def
        coupling_edge_def)
  have b: "map (\<lambda>e. (src_paper_id e, dst_paper_id e, type e))
     (buildSimilarityEdges [(''A'', 1), (''B'', 2), (''C'', 3)] three_docs 1 (1 / 4))
     = [(1, 3, SIMILAR_TEXT), (2, 1, SIMILAR_TEXT)]"
    by (simp add: buildSimilarityEdges_def three_docs_neighbors neighbor_step_def
        similarity_edge_def)
  have c: "map (\<lambda>e. (src_paper_id e, dst_paper_id e, type e))
     (buildSimilarityEdges [(''A'', 1), (''B'', 2), (''C'', 1)] three_docs 1 (1 / 4))
     = [(1, 1, SIMILAR_TEXT), (2, 1, SIMILAR_TEXT)]"
    by (simp add: buildSimilarityEdges_def three_docs_neighbors neighbor_step_def
        similarity_edge_def)
  from a b c show ?thesis by blast
qed

theorem analytic_edges_pairs_witness:
  "distinct (map snd [(''A'', 1::nat), (''B'', 2), (''C'', 3)]) \<and>
   map (\<lambda>e. (src_paper_id e, dst_paper_id e))
     (buildSimilarityEdges [(''A'', 1), (''B'', 2), (''C'', 3)] three_docs 1 (1 / 4)) = [(1, 3), (2, 1)] \<and>
   list_all (\<lambda>e. src_paper_id e \<noteq> dst_paper_id e \<and> js_ge (weight e) (1 / 4))
     (buildSimilarityEdges [(''A'', 1), (''B'', 2), (''C'', 3)] three_docs 1 (1 / 4)) \<and>
   map (\<lambda>e. (src_paper_id e, dst_paper_id e)) (computeCoCitation [cites_edge 1 3, cites_edge 1 2])
     = [(2, 3)] \<and>
   list_all (\<lambda>e. src_paper_id e < dst_paper_id e) (computeCoCitation [cites_edge 1 3, cites_edge 1 2]) \<and>
   first_citers [cites_edge 2 3, cites_edge 1 3] = [2, 1] \<and>
   list_all (\<lambda>e. precedes (src_paper_id e) (dst_paper_id e) (first_citers [cites_edge 2 3, cites_edge 1 3]))
     (computeBibCoupling [cites_edge 2 3, cites_edge 1 3])"
proof -
  have h: "distinct (map snd [(''A'', 1::nat), (''B'', 2), (''C'', 3)])" by simp
  have s: "map (\<lambda>e. (src_paper_id e, dst_paper_id e))
     (buildSimilarityEdges [(''A'', 1), (''B'', 2), (''C'', 3)] three_docs 1 (1 / 4)) = [(1, 3), (2, 1)]"
    by (simp add: buildSimilarityEdges_def three_docs_neighbors neighbor_step_def
        similarity_edge_def)
  have c: "map (\<lambda>e. (src_paper_id e, dst_paper_id e)) (computeCoCitation [cites_edge 1 3, cites_edge 1 2])
     = [(2, 3)]"
    by (simp add: computeCoCitation_def cites_refs_def cites_edge_def set_add_def pair_counts_def
        cocitation_edge_def)
  have f: "first_citers [cites_edge 2 3, cites_edge 1 3] = [2, 1]"
    by (simp add: first_citers_def cites_edge_def set_add_def)
  from analytic_edges_pairs [of "[(''A'', 1), (''B'', 2), (''C'', 3)]" three_docs 1 "1 / 4"
      "[cites_edge 1 3, cites_edge 1 2]"]
    analytic_edges_pairs [of "[(''A'', 1), (''B'', 2), (''C'', 3)]" three_docs 1 "1 / 4"
      "[cites_edge 2 3, cites_edge 1 3]"] h s c f
  show ?thesis unfolding list_all_iff by blast
qed

section \<open>Properties of the composite scorer\<close>

lemma fold_scores_mem:
  "(i, s) \<in> set (fold (\<lambda>p scores. case paper_id p of None \<Rightarrow> scores
                                   | Some pid \<Rightarrow> map_set pid (F pid p) scores) ps acc) \<Longrightarrow>
   (i, s) \<in> set acc \<or> (\<exists>p \<in> set ps. paper_id p = Some i \<and> s = F i p)"
proof (induction ps arbitrary: acc)
  case Nil
  then show ?case by simp
next
  case (Cons p ps)
  show ?case
  proof (cases "paper_id p")
    case None
    with Cons.prems Cons.IH [of acc] show ?thesis by auto
  next
    case (Some pid)
    with Cons.prems have "(i, s) \<in> set (fold (\<lambda>p scores. case paper_id p of None \<Rightarrow> scores
                                   | Some pid \<Rightarrow> map_set pid (F pid p) scores) ps (map_set pid (F pid p) acc))"
      by simp
    from Cons.IH [OF this] set_map_set [of pid "F pid p" acc] Some show ?thesis by auto
  qed
qed

lemma oldest_year_Min:
  assumes "filter (\<lambda>y. 1900 < y) (map (year_or currentYear) ps) \<noteq> []"
  shows "oldest_year currentYear ps = Some (year_min currentYear ps)"
proof -
  let ?ys = "filter (\<lambda>y. 1900 < y) (map (year_or currentYear) ps)"
  obtain y ys where ys: "?ys = y # ys" using assms by (cases ?ys) auto
  have "fold min ys y = Min (set (y # ys))" by (simp only: Min.set_eq_fold)
  also have "set (y # ys) = {y \<in> year_or currentYear ` set ps. 1900 < y}"
    unfolding ys [symmetric] by auto
  finally have "fold min ys y = year_min currentYear ps" by (simp add: year_min_def)
  then show ?thesis using ys by (simp add: oldest_year_def)
qed

lemma max_pagerank_Max:
  "max_pagerank prs = Max (insert (1 / 1000) (snd ` set prs))"
proof -
  have "fold max (map snd prs) (1 / 1000) = Max (set ((1 / 1000) # map snd prs))"
    by (simp only: Max.set_eq_fold)
  then show ?thesis by (simp add: max_pagerank_def)
qed

lemma max_pagerank_pos: "0 < max_pagerank prs"
proof -
  have "(1 / 1000 :: real) \<le> Max (insert (1 / 1000) (snd ` set prs))"
    by (rule Max_ge) simp_all
  then show ?thesis by (simp add: max_pagerank_Max)
qed

lemma fold_add_nonneg:
  "0 \<le> (acc :: real) \<Longrightarrow> (\<And>x. 0 \<le> f x) \<Longrightarrow> 0 \<le> fold (\<lambda>x s. s + f x) xs acc"
  by (induction xs arbitrary: acc) simp_all

lemma computeRelevance_nonneg:
  assumes "list_all (\<lambda>d. list_all (\<lambda>tw. 0 \<le> snd tw) (snd d)) (documents corpus)"
  shows "0 \<le> computeRelevance corpus docId queryTokens"
proof (cases "map_of (documents corpus) docId")
  case None
  then show ?thesis by (simp add: computeRelevance_def)
next
  case (Some v)
  then have "(docId, v) \<in> set (documents corpus)" by (rule map_of_SomeD)
  with assms have v: "list_all (\<lambda>tw. 0 \<le> snd tw) v" by (auto simp: list_all_iff)
  have "0 \<le> (case map_of v token of Some w \<Rightarrow> w | None \<Rightarrow> 0)" for token
    using v by (auto simp: list_all_iff split: option.splits dest!: map_of_SomeD)
  then have "0 \<le> fold (\<lambda>token score. score + (case map_of v token of Some w \<Rightarrow> w | None \<Rightarrow> 0)) queryTokens 0"
    by (intro fold_add_nonneg) simp_all
  then show ?thesis using Some by (simp add: computeRelevance_def)
qed

text \<open>
  Where the score is in range: for a paper whose year is above 1900 or missing (with a
  current year above 1900), non-negative weights, and non-negative PageRank values and
  corpus weights, the composite score is a real number \<open>x\<close> with \<open>0 \<le> x \<le> 1\<close> and equals
  \<open>min 1 (pr' * w_p + rel * w_r + rec * w_y)\<close>, where \<open>pr'\<close> is the PageRank value divided by
  the largest value (at least \<open>1/1000\<close>), \<open>rel\<close> the relevance to the topic, and
  \<open>rec = (year - year_min) / max 1 (current_year - year_min)\<close>; the other papers of the
  input may have any year.
\<close>

lemma composite_score_range:
  assumes mem: "(i, s) \<in> set (computeCompositeScores ps pagerankScores corpus tp weights currentYear)"
    and yrs: "\<And>p. p \<in> set ps \<Longrightarrow> paper_id p = Some i \<Longrightarrow> 1900 < year_or currentYear p"
    and w: "0 \<le> pagerankWeight weights" "0 \<le> relevanceWeight weights" "0 \<le> recencyWeight weights"
    and pr: "list_all (\<lambda>kv. 0 \<le> snd kv) pagerankScores"
    and cw: "list_all (\<lambda>d. list_all (\<lambda>tw. 0 \<le> snd tw) (snd d)) (documents corpus)"
  shows "\<exists>p x. p \<in> set ps \<and> paper_id p = Some i \<and> s = Fin x \<and> 0 \<le> x \<and> x \<le> 1 \<and>
     x = min 1
       ((case map_of pagerankScores i of Some v \<Rightarrow> v | None \<Rightarrow> 0)
           / Max (insert (1 / 1000) (snd ` set pagerankScores)) * pagerankWeight weights
        + (if query_tokens tp = [] then 0
           else computeRelevance corpus (doc_id p) (query_tokens tp)) * relevanceWeight weights
        + real_of_int (year_or currentYear p - year_min currentYear ps)
           / real_of_int (max 1 (currentYear - year_min currentYear ps)) * recencyWeight weights)"
proof -
  let ?F = "composite_score pagerankScores corpus (query_tokens tp) weights currentYear
              (oldest_year currentYear ps)"
  from mem have "(i, s) \<in> set (fold (\<lambda>p scores. case paper_id p of None \<Rightarrow> scores
                                   | Some pid \<Rightarrow> map_set pid (?F pid p) scores) ps [])"
    by (simp add: computeCompositeScores_def Let_def)
  from fold_scores_mem [OF this] obtain p where p: "p \<in> set ps" "paper_id p = Some i" "s = ?F i p"
    by auto
  let ?ys = "filter (\<lambda>y. 1900 < y) (map (year_or currentYear) ps)"
  from yrs [OF p(1,2)] have yp: "1900 < year_or currentYear p" .
  with p(1) have "year_or currentYear p \<in> set ?ys" by auto
  then have ne: "?ys \<noteq> []" by (metis empty_iff list.set(1))
  note oy = oldest_year_Min [OF ne]
  let ?m = "year_min currentYear ps"
  have fin: "finite {y \<in> year_or currentYear ` set ps. 1900 < y}" by simp
  have "?m \<le> year_or currentYear p"
    unfolding year_min_def using p(1) yp by (intro Min_le fin) auto
  then have rec: "0 \<le> real_of_int (year_or currentYear p - ?m) / real_of_int (max 1 (currentYear - ?m))"
    by simp
  have pr0: "0 \<le> (case map_of pagerankScores i of Some v \<Rightarrow> v | None \<Rightarrow> 0)"
    using pr by (auto simp: list_all_iff split: option.splits dest!: map_of_SomeD)
  have prn: "0 \<le> (case map_of pagerankScores i of Some v \<Rightarrow> v | None \<Rightarrow> 0)
           / Max (insert (1 / 1000) (snd ` set pagerankScores))"
    using pr0 max_pagerank_pos [of pagerankScores] by (simp add: max_pagerank_Max)
  have rel: "0 \<le> (if query_tokens tp = [] then 0
           else computeRelevance corpus (doc_id p) (query_tokens tp))"
    using computeRelevance_nonneg [OF cw] by simp
  let ?c = "(case map_of pagerankScores i of Some v \<Rightarrow> v | None \<Rightarrow> 0)
           / Max (insert (1 / 1000) (snd ` set pagerankScores)) * pagerankWeight weights
        + (if query_tokens tp = [] then 0
           else computeRelevance corpus (doc_id p) (query_tokens tp)) * relevanceWeight weights
        + real_of_int (year_or currentYear p - ?m)
           / real_of_int (max 1 (currentYear - ?m)) * recencyWeight weights"
  have c0: "0 \<le> ?c"
    using prn rel rec w by (intro add_nonneg_nonneg mult_nonneg_nonneg)
  have did: "(if source_id p \<noteq> [] then source_id p else string_of_nat i) = doc_id p"
    using p(2) by (simp add: doc_id_def)
  have "?F i p = Fin (min 1 ?c)"
    unfolding composite_score_def oy did max_pagerank_Max
    by (simp add: Let_def)
  with p c0 show ?thesis by (intro exI [of _ p] exI [of _ "min 1 ?c"]) simp
qed

text \<open>
  Claim C6. The scorer caps the composite score above, by \<^verbatim>\<open>Math.min(1.0, composite)\<close>, and
  has no bound below, while the oldest year is the least year above 1900. So a paper of
  the year 1850 beside one of the year 2000 has the recency \<open>(1850 - 2000) / 24\<close> and, with
  the default weights, the score \<open>-5/4\<close>; alone it has the score \<^verbatim>\<open>-Infinity\<close>, because the
  oldest year is then \<^verbatim>\<open>Math.min()\<close> of nothing; and a weight triple that sums to 1 with a
  negative entry gives a negative score to a paper without a year, which counts as of the
  current year. The test of the
  scorer in the repository expects every score to be at least 0 and at most 1.
\<close>

theorem composite_score_below_zero:
  "computeCompositeScores [paper_1850, paper_2000] [] empty_corpus None DEFAULT_WEIGHTS 2024 =
     [(1, Fin (- (5 / 4))), (2, Fin 0)] \<and>
   computeCompositeScores [paper_1850] [] empty_corpus None DEFAULT_WEIGHTS 2024 =
     [(1, NegInfinity)] \<and>
   computeCompositeScores [paper_2000, paper_undated] [] empty_corpus None
     \<lparr>pagerankWeight = 3 / 2, relevanceWeight = 0, recencyWeight = - (1 / 2)\<rparr> 2024 =
     [(2, Fin 0), (3, Fin (- (1 / 2)))]"
  by (simp add: computeCompositeScores_def composite_score_def oldest_year_def year_or_def
      query_tokens_def max_pagerank_def DEFAULT_WEIGHTS_def paper_1850_def paper_2000_def
      paper_undated_def test_paper_def)

section \<open>Properties of the build\<close>

lemma papers_insert_edge [simp]: "papers (insert_edge e db) = papers db"
  by (simp add: insert_edge_def)

lemma papers_insertEdges [simp]: "papers (insertEdges es db) = papers db"
  unfolding insertEdges_def by (induction es arbitrary: db) simp_all

lemma runs_insert_edge [simp]: "runs (insert_edge e db) = runs db"
  by (simp add: insert_edge_def)

lemma runs_insertEdges [simp]: "runs (insertEdges es db) = runs db"
  unfolding insertEdges_def by (induction es arbitrary: db) simp_all

lemma length_papers_insert_or_ignore:
  "length (papers (fst (insert_or_ignore p db))) \<le> Suc (length (papers db))"
  by (simp add: insert_or_ignore_def)

lemma fst_insert_paper_step: "fst (insert_paper_step p st) = fst (insert_or_ignore p (fst st))"
  by (simp add: insert_paper_step_def Let_def split: prod.splits option.splits)

lemma length_papers_fold_insert:
  "length (papers (fst (fold insert_paper_step ps st))) \<le> length (papers (fst st)) + length ps"
proof (induction ps arbitrary: st)
  case Nil
  then show ?case by simp
next
  case (Cons p ps)
  have "length (papers (fst (fold insert_paper_step ps (insert_paper_step p st))))
        \<le> length (papers (fst (insert_paper_step p st))) + length ps"
    by (rule Cons.IH)
  also have "length (papers (fst (insert_paper_step p st))) \<le> Suc (length (papers (fst st)))"
    unfolding fst_insert_paper_step by (rule length_papers_insert_or_ignore)
  finally show ?case by simp
qed

lemma length_papers_insertPapers:
  "length (papers (fst (insertPapers ps db))) \<le> length (papers db) + length ps"
  using length_papers_fold_insert [of ps "(db, [])"] by (simp add: insertPapers_def)

lemma seedLimit_ge: "10 \<le> seedLimit config"
  by (simp add: seedLimit_def)

lemma findSeeds_length:
  "findSeeds adapter config = Some (seeds, calls) \<Longrightarrow> int (length seeds) \<le> seedLimit config"
  using seedLimit_ge [of config]
  by (auto simp: findSeeds_def slice0_def split: option.splits)

lemma count_le_emit_edge: "count_le B st \<Longrightarrow> count_le B (emit_edge citer a b d st)"
  by (simp add: count_le_def emit_edge_def getPaperCount_def)

lemma count_le_add_new_paper:
  assumes "int (getPaperCount (t_db st)) < B"
  shows "count_le B (add_new_paper citer pid d ref st)"
proof -
  let ?ins = "insertPapers [ref] (t_db st)"
  let ?st2 = "st\<lparr>visited := insert (source ref, source_id ref) (visited st), t_db := fst ?ins\<rparr>"
  have "length (papers (fst ?ins)) \<le> length (papers (t_db st)) + 1"
    using length_papers_insertPapers [of "[ref]" "t_db st"] by simp
  with assms have c2: "count_le B ?st2"
    by (simp add: count_le_def getPaperCount_def)
  show ?thesis
  proof (cases "snd ?ins")
    case Nil
    with c2 show ?thesis by (simp add: add_new_paper_def)
  next
    case (Cons refId rest)
    have "count_le B (emit_edge citer pid refId d ?st2)"
      by (rule count_le_emit_edge [OF c2])
    then have "count_le B ((emit_edge citer pid refId d ?st2)
        \<lparr>nextFrontier := nextFrontier (emit_edge citer pid refId d ?st2)
             @ [ref\<lparr>paper_id := Some refId\<rparr>]\<rparr>)"
      by (simp add: count_le_def)
    with Cons show ?thesis by (simp add: add_new_paper_def Let_def)
  qed
qed

lemma count_le_process_ref:
  assumes "count_le B st" "maxPapers config \<le> B"
  shows "count_le B (process_ref config citer pid d atCapacity ref st)"
proof (cases "existing_id (t_db st) ref")
  case (Some dst)
  then show ?thesis
    using count_le_emit_edge [OF assms(1)] by (simp add: process_ref_def)
next
  case None
  show ?thesis
  proof (cases "(source ref, source_id ref) \<notin> visited st \<and> \<not> atCapacity
              \<and> int (getPaperCount (t_db st)) < maxPapers config")
    case False
    with None assms(1) show ?thesis by (auto simp: process_ref_def)
  next
    case True
    with assms(2) have "int (getPaperCount (t_db st)) < B" by simp
    from count_le_add_new_paper [OF this] None True show ?thesis
      by (simp add: process_ref_def)
  qed
qed

lemma count_le_fold_process_ref:
  "count_le B st \<Longrightarrow> maxPapers config \<le> B \<Longrightarrow>
   count_le B (fold (process_ref config citer pid d atCapacity) refs st)"
  by (induction refs arbitrary: st) (simp_all add: count_le_process_ref)

lemma count_le_process_paper:
  "count_le B st \<Longrightarrow> maxPapers config \<le> B \<Longrightarrow>
   count_le B (process_paper adapter config d atCapacity p st)"
proof -
  assume a: "count_le B st" "maxPapers config \<le> B"
  then have "count_le B (st\<lparr>t_calls := t_calls st + 1\<rparr>)" by (simp add: count_le_def)
  from count_le_fold_process_ref [OF this a(2)] a(1) show ?thesis
    by (simp add: process_paper_def count_le_def split: option.splits)
qed

lemma count_le_fold_process_paper:
  "count_le B st \<Longrightarrow> maxPapers config \<le> B \<Longrightarrow>
   count_le B (fold (process_paper adapter config d atCapacity) frontier st)"
  by (induction frontier arbitrary: st) (simp_all add: count_le_process_paper)

lemma count_le_traverse_from:
  "count_le B st \<Longrightarrow> maxPapers config \<le> B \<Longrightarrow>
   count_le B (traverse_from adapter config d frontier st)"
proof (induction adapter config d frontier st rule: traverse_from.induct)
  case (1 adapter config d frontier st)
  show ?case
  proof (cases "d < depth config")
    case False
    with "1.prems" show ?thesis by simp
  next
    case True
    let ?cap = "maxPapers config \<le> int (getPaperCount (t_db st))"
    let ?st1 = "st\<lparr>nextFrontier := [], t_log := t_log st @ [Info (Starting_depth_traversal d)]\<rparr>"
    let ?st2 = "fold (process_paper adapter config d ?cap) frontier ?st1"
    let ?st3 = "?st2\<lparr>t_log := t_log ?st2 @ [Info (Citation_depth_traversed (d + 1))]\<rparr>"
    from "1.prems"(1) have "count_le B ?st1" by (simp add: count_le_def)
    from count_le_fold_process_paper [OF this "1.prems"(2)]
    have c2: "count_le B ?st2" .
    then have c3: "count_le B ?st3" by (simp add: count_le_def)
    show ?thesis
    proof (cases "nextFrontier ?st3 = []")
      case nf: True
      have "traverse_from adapter config d frontier st = ?st3"
        using True nf by (subst traverse_from.simps) (simp add: Let_def)
      with c3 show ?thesis by simp
    next
      case nf: False
      have eq: "traverse_from adapter config d frontier st =
            traverse_from adapter config (d + 1) (nextFrontier ?st3) ?st3"
        using True nf by (subst traverse_from.simps) (simp add: Let_def)
      have "count_le B (traverse_from adapter config (d + 1) (nextFrontier ?st3) ?st3)"
        by (rule "1.IH" [OF True refl refl refl refl nf c3 "1.prems"(2)])
      with eq show ?thesis by simp
    qed
  qed
qed

lemma papers_analytic_edges [simp]:
  "papers (fst (analytic_edges ext config corpus allPapers st0)) = papers (fst st0)"
  by (simp add: analytic_edges_def Let_def)

lemma runs_analytic_edges [simp]:
  "runs (fst (analytic_edges ext config corpus allPapers st0)) = runs (fst st0)"
  by (simp add: analytic_edges_def Let_def)

lemma papers_fold_insert_link [simp]:
  "papers (fold (insert_link c) ids db) = papers db"
  by (induction ids arbitrary: db) (simp_all add: insert_link_def)

lemma papers_insert_cluster_step [simp]:
  "papers (fst (insert_cluster_step pm c st)) = papers (fst st)"
  by (simp add: insert_cluster_step_def Let_def)

lemma papers_insertClusters [simp]: "papers (insertClusters cs pm db) = papers db"
proof -
  have "papers (fst (fold (insert_cluster_step pm) cs st)) = papers (fst st)" for st
    by (induction cs arbitrary: st) simp_all
  then show ?thesis by (simp add: insertClusters_def)
qed

lemma length_papers_updatePaperScore [simp]:
  "length (papers (updatePaperScore i s db)) = length (papers db)"
  by (simp add: updatePaperScore_def)

lemma length_papers_fold_update [simp]:
  "length (papers (fold (\<lambda>(paperId, pr) db. updatePaperScore paperId pr db) prs db)) =
   length (papers db)"
  by (induction prs arbitrary: db) (simp_all add: case_prod_unfold)

lemma papers_insertRun [simp]: "papers (fst (insertRun r db)) = papers db"
  by (simp add: insertRun_def)

lemma papers_close_db [simp]: "papers (close_db db) = papers db"
  by (simp add: close_db_def)

lemma count_rank_and_record:
  "getPaperCount (final_db (rank_and_record ext config corpus allPapers st)) =
   getPaperCount (fst st)"
  by (simp add: rank_and_record_def getPaperCount_def Let_def
      split: sum.splits prod.splits)

lemma count_buildGraph:
  "getPaperCount (final_db (buildGraph ext config db)) =
     (case findSeeds (getSourceAdapter ext config) config of
        None \<Rightarrow> getPaperCount db
      | Some (seeds, calls) \<Rightarrow>
          if seeds = [] then getPaperCount db
          else getPaperCount (t_db (traverseCitations (getSourceAdapter ext config)
                 (fst (insertPapers seeds db))
                 (assign_ids seeds (snd (insertPapers seeds db))) config calls
                 [Info Starting_graph_build, Info (Seeds_found (length seeds))])))"
  using count_rank_and_record [unfolded getPaperCount_def]
  by (simp add: buildGraph_def Let_def getPaperCount_def
      split: option.splits prod.splits)

section \<open>The capacity of a build\<close>

lemma seedLimit_le_maxPapers: "10 \<le> maxPapers config \<Longrightarrow> seedLimit config \<le> maxPapers config"
  by (simp add: seedLimit_def)

lemma count_traverseCitations:
  "int (getPaperCount (t_db (traverseCitations adapter db0 frontier config calls lg)))
     \<le> max (maxPapers config) (int (getPaperCount db0))"
proof -
  let ?B = "max (maxPapers config) (int (getPaperCount db0))"
  let ?st0 = "\<lparr>t_db = db0, visited = set (map (\<lambda>p. (source p, source_id p)) frontier),
        edgeSeen = {}, allEdges = [], nextFrontier = [], t_calls = calls, t_log = lg\<rparr>"
  have "count_le ?B ?st0" by (simp add: count_le_def)
  from count_le_traverse_from [OF this, of config adapter 0 frontier]
  show ?thesis by (simp add: traverseCitations_def count_le_def)
qed

lemma buildGraph_count_general:
  "int (getPaperCount (final_db (buildGraph ext config db)))
     \<le> max (maxPapers config) (int (getPaperCount db) + seedLimit config)"
proof (cases "findSeeds (getSourceAdapter ext config) config")
  case None
  with seedLimit_ge [of config] show ?thesis by (simp add: count_buildGraph)
next
  case (Some r)
  obtain seeds calls where r: "r = (seeds, calls)" by (cases r)
  show ?thesis
  proof (cases "seeds = []")
    case True
    with Some r seedLimit_ge [of config] show ?thesis by (simp add: count_buildGraph)
  next
    case False
    let ?db1 = "fst (insertPapers seeds db)"
    have "int (getPaperCount ?db1) \<le> int (getPaperCount db) + int (length seeds)"
      using length_papers_insertPapers [of seeds db] by (simp add: getPaperCount_def)
    also have "\<dots> \<le> int (getPaperCount db) + seedLimit config"
      using findSeeds_length [OF Some [unfolded r]] by simp
    finally have 1: "int (getPaperCount ?db1) \<le> int (getPaperCount db) + seedLimit config" .
    have "int (getPaperCount (final_db (buildGraph ext config db))) \<le>
          max (maxPapers config) (int (getPaperCount ?db1))"
      using Some r False by (simp add: count_buildGraph count_traverseCitations)
    with 1 show ?thesis by simp
  qed
qed

text \<open>
  Claim C3, as amended. When the build ends, on every path, the number of stored papers is
  at most the larger of \<open>max_papers\<close> and the number of papers the store held before the
  build plus \<open>seed_limit\<close>. In particular it is at most \<open>max_papers\<close> when the store was empty
  and \<open>max_papers \<ge> 10\<close>. The seed limit is \<open>clamp(floor(max_papers * 0.4), 10, 200)\<close>, the
  seeds found are at most that many, and the traversal never takes the count above the
  larger of \<open>max_papers\<close> and the count it started from. With \<open>max_papers = 5\<close> the seed
  limit is 10, and a topic search with ten results leaves ten papers in an empty store.
\<close>

theorem paper_count_bound:
  "int (getPaperCount (final_db (buildGraph ext config db)))
     \<le> max (maxPapers config) (int (getPaperCount db) + seedLimit config) \<and>
   (getPaperCount db = 0 \<and> 10 \<le> maxPapers config \<longrightarrow>
      int (getPaperCount (final_db (buildGraph ext config db))) \<le> maxPapers config) \<and>
   seedLimit config = max 10 (min ((2 * maxPapers config) div 5) 200) \<and>
   (findSeeds adapter config = Some (seeds, calls) \<longrightarrow> int (length seeds) \<le> seedLimit config) \<and>
   int (getPaperCount (t_db (traverseCitations adapter db0 frontier config calls lg)))
     \<le> max (maxPapers config) (int (getPaperCount db0))"
proof -
  have 2: "int (getPaperCount (final_db (buildGraph ext config db))) \<le> maxPapers config"
    if "getPaperCount db = 0 \<and> 10 \<le> maxPapers config"
    using buildGraph_count_general [of ext config db] seedLimit_le_maxPapers [of config] that
    by simp
  have 3: "seedLimit config = max 10 (min ((2 * maxPapers config) div 5) 200)"
    by (simp only: seedLimit_def)
  show ?thesis
    apply (intro conjI impI)
    apply (rule buildGraph_count_general)
    apply (erule 2)
    apply (rule 3)
    apply (erule findSeeds_length)
    apply (rule count_traverseCitations)
    done
qed

lemma traverseCitations_depth0:
  "depth config \<le> 0 \<Longrightarrow> t_db (traverseCitations adapter db0 frontier config calls lg) = db0"
  by (simp add: traverseCitations_def)

lemma getSourceAdapter_test_ext [simp]: "getSourceAdapter (test_ext adapter) config = adapter"
  by (simp add: getSourceAdapter_def test_ext_def split: SourceTag.splits)

lemma seedLimit_five: "seedLimit (test_config\<lparr>depth := 0, maxPapers := 5\<rparr>) = 10"
  by (simp add: seedLimit_def test_config_def)

lemma fold_addUnique_fresh:
  "distinct (map (\<lambda>p. (source p, source_id p)) ps) \<Longrightarrow>
   set (map (\<lambda>p. (source p, source_id p)) ps) \<inter> seen = {} \<Longrightarrow>
   fold addUnique ps (acc, seen) = (acc @ ps, seen \<union> set (map (\<lambda>p. (source p, source_id p)) ps))"
proof (induction ps arbitrary: acc seen)
  case Nil
  then show ?case by simp
next
  case (Cons p ps)
  from Cons.prems have 1: "addUnique p (acc, seen) = (acc @ [p], insert (source p, source_id p) seen)"
    by (simp add: addUnique_def)
  from Cons.prems have 2: "distinct (map (\<lambda>p. (source p, source_id p)) ps)"
    and 3: "set (map (\<lambda>p. (source p, source_id p)) ps) \<inter> insert (source p, source_id p) seen = {}"
    by auto
  from Cons.IH [OF 2 3] 1 show ?case by simp
qed

lemma ten_papers_keys: "distinct (map (\<lambda>p. (source p, source_id p)) ten_papers)"
  by (simp add: ten_papers_def numbered_def)

lemma findSeeds_ten:
  "findSeeds (topic_adapter ten_papers) (test_config\<lparr>depth := 0, maxPapers := 5\<rparr>) =
     Some (ten_papers, 1)"
proof -
  let ?cfg = "test_config\<lparr>depth := 0, maxPapers := 5\<rparr>"
  have t: "topic ?cfg = Some ''graphs''" "paper_titles ?cfg = None" "dois ?cfg = None"
    by (simp_all add: test_config_def)
  have s: "searchByTopic (topic_adapter ten_papers) 0 ''graphs'' 10 = Some ten_papers"
    by (simp add: topic_adapter_def)
  have 1: "seeds_by_topic (topic_adapter ten_papers) ?cfg (([], {}), 0) =
      Some ((ten_papers, set (map (\<lambda>p. (source p, source_id p)) ten_papers)), 1)"
    using fold_addUnique_fresh [OF ten_papers_keys, of "{}" "[]"]
    by (simp add: seeds_by_topic_def t s seedLimit_five)
  have "length ten_papers = 10" by (simp add: ten_papers_def)
  then have 2: "slice0 10 ten_papers = ten_papers" by (simp add: slice0_def)
  show ?thesis
    by (simp add: findSeeds_def 1 t 2 seedLimit_five)
qed

lemma insert_or_ignore_fresh:
  "\<not> list_ex (has_key (source p) (source_id p)) (papers db) \<Longrightarrow>
   insert_paper_step p (db, ids) =
     (db\<lparr>papers := papers db @ [(next_rowid (papers db), columns p)],
         lastInsertRowid := next_rowid (papers db)\<rparr>, ids @ [next_rowid (papers db)])"
  by (simp add: insert_paper_step_def insert_or_ignore_def)

lemma insertPapers_fresh_length:
  "distinct (map (\<lambda>p. (source p, source_id p)) ps) \<Longrightarrow>
   \<forall>p \<in> set ps. \<not> list_ex (has_key (source p) (source_id p)) (papers (fst st)) \<Longrightarrow>
   length (papers (fst (fold insert_paper_step ps st))) = length (papers (fst st)) + length ps"
proof (induction ps arbitrary: st)
  case Nil
  then show ?case by simp
next
  case (Cons p ps)
  obtain db ids where st: "st = (db, ids)" by (cases st)
  from Cons.prems(2) have f: "\<not> list_ex (has_key (source p) (source_id p)) (papers db)"
    by (simp add: st)
  let ?st' = "insert_paper_step p (db, ids)"
  have p': "papers (fst ?st') = papers db @ [(next_rowid (papers db), columns p)]"
    by (simp add: insert_or_ignore_fresh [OF f])
  have "\<forall>q \<in> set ps. \<not> list_ex (has_key (source q) (source_id q)) (papers (fst ?st'))"
  proof
    fix q assume q: "q \<in> set ps"
    from Cons.prems(2) q have a: "\<not> list_ex (has_key (source q) (source_id q)) (papers db)"
      by (simp add: st)
    from Cons.prems(1) q have "(source p, source_id p) \<noteq> (source q, source_id q)" by auto
    then have "\<not> has_key (source q) (source_id q) (next_rowid (papers db), columns p)"
      by auto
    with a show "\<not> list_ex (has_key (source q) (source_id q)) (papers (fst ?st'))"
      unfolding p' by simp
  qed
  with Cons.IH [of ?st'] Cons.prems(1) have
    "length (papers (fst (fold insert_paper_step ps ?st'))) = length (papers (fst ?st')) + length ps"
    by simp
  then show ?case unfolding st by (simp add: p')
qed

lemma insert_ten:
  "length (papers (fst (insertPapers ten_papers empty_db))) = 10"
proof -
  have "length ten_papers = 10" by (simp add: ten_papers_def)
  with insertPapers_fresh_length [OF ten_papers_keys, of "(empty_db, [])"] show ?thesis
    by (simp add: insertPapers_def empty_db_def)
qed

theorem paper_count_counterexample:
  "maxPapers (test_config\<lparr>depth := 0, maxPapers := 5\<rparr>) = 5 \<and>
   getPaperCount empty_db = 0 \<and>
   getPaperCount (final_db (buildGraph (test_ext (topic_adapter ten_papers))
      (test_config\<lparr>depth := 0, maxPapers := 5\<rparr>) empty_db)) = 10"
proof -
  have ne: "ten_papers \<noteq> []" by (simp add: ten_papers_def)
  have "getPaperCount (final_db (buildGraph (test_ext (topic_adapter ten_papers))
      (test_config\<lparr>depth := 0, maxPapers := 5\<rparr>) empty_db)) =
      getPaperCount (fst (insertPapers ten_papers empty_db))"
    unfolding count_buildGraph
    by (simp add: findSeeds_ten ne traverseCitations_depth0)
  moreover have "getPaperCount empty_db = 0" by (simp add: getPaperCount_def empty_db_def)
  ultimately show ?thesis using insert_ten by (simp add: getPaperCount_def)
qed

theorem paper_count_bound_witness:
  "getPaperCount empty_db = 0 \<and> 10 \<le> maxPapers (test_config\<lparr>maxPapers := 10\<rparr>) \<and>
   findSeeds (topic_adapter ten_papers) (test_config\<lparr>depth := 0, maxPapers := 5\<rparr>) =
     Some (ten_papers, 1) \<and>
   int (length ten_papers) \<le> seedLimit (test_config\<lparr>depth := 0, maxPapers := 5\<rparr>) \<and>
   int (getPaperCount (final_db (buildGraph (test_ext (topic_adapter ten_papers))
      (test_config\<lparr>maxPapers := 10\<rparr>) empty_db))) \<le> 10"
proof -
  have h1: "getPaperCount empty_db = 0 \<and> 10 \<le> maxPapers (test_config\<lparr>maxPapers := 10\<rparr>)"
    by (simp add: getPaperCount_def empty_db_def)
  have m: "maxPapers (test_config\<lparr>maxPapers := 10\<rparr>) = 10" by simp
  note t1 = paper_count_bound [of "test_ext (topic_adapter ten_papers)"
      "test_config\<lparr>maxPapers := 10\<rparr>" empty_db]
  note t2 = paper_count_bound [of _ "test_config\<lparr>depth := 0, maxPapers := 5\<rparr>" _
      "topic_adapter ten_papers" ten_papers 1]
  from t1 h1 m have a: "int (getPaperCount (final_db (buildGraph (test_ext (topic_adapter ten_papers))
      (test_config\<lparr>maxPapers := 10\<rparr>) empty_db))) \<le> 10"
    by simp
  from t2 findSeeds_ten have b:
    "int (length ten_papers) \<le> seedLimit (test_config\<lparr>depth := 0, maxPapers := 5\<rparr>)"
    by blast
  from h1 a b findSeeds_ten show ?thesis by blast
qed

section \<open>A build without seeds\<close>

text \<open>
  Claim C4, as amended. When the final seed set is empty, \<open>buildGraph\<close> logs the warning,
  closes the store and returns the output path, and it writes nothing: the tables
  \<^verbatim>\<open>runs\<close>, \<^verbatim>\<open>papers\<close> and \<^verbatim>\<open>edges\<close> are as before the build, so the run count is unchanged
  and no run row with zero counts is recorded.
\<close>

theorem empty_seed_set:
  assumes "findSeeds (getSourceAdapter ext config) config = Some ([], calls)"
  shows "buildGraph ext config db =
           \<lparr>final_db = close_db db,
            build_log = [Info Starting_graph_build, Info (Seeds_found 0),
                         Warn No_seed_papers_found_nothing_to_build],
            outcome = Inr (out config)\<rparr> \<and>
         runs (final_db (buildGraph ext config db)) = runs db \<and>
         papers (final_db (buildGraph ext config db)) = papers db \<and>
         edges (final_db (buildGraph ext config db)) = edges db \<and>
         handle_closed (final_db (buildGraph ext config db))"
  using assms by (simp add: buildGraph_def close_db_def)

lemma findSeeds_silent: "findSeeds silent_adapter test_config = Some ([], 1)"
  by (simp add: findSeeds_def seeds_by_topic_def silent_adapter_def test_config_def slice0_def)

theorem empty_seed_set_counterexample:
  "findSeeds (getSourceAdapter (test_ext silent_adapter) test_config) test_config = Some ([], 1) \<and>
   length (runs empty_db) = 0 \<and>
   length (runs (final_db (buildGraph (test_ext silent_adapter) test_config empty_db))) = 0"
  by (simp add: findSeeds_silent buildGraph_def close_db_def empty_db_def)

theorem empty_seed_set_witness:
  "findSeeds (getSourceAdapter (test_ext silent_adapter) test_config) test_config = Some ([], 1) \<and>
   outcome (buildGraph (test_ext silent_adapter) test_config empty_db) = Inr ''graph.db'' \<and>
   runs (final_db (buildGraph (test_ext silent_adapter) test_config empty_db)) = []"
proof -
  have h: "findSeeds (getSourceAdapter (test_ext silent_adapter) test_config) test_config = Some ([], 1)"
    by (simp add: findSeeds_silent)
  note t = empty_seed_set [OF h, of empty_db]
  let ?r = "buildGraph (test_ext silent_adapter) test_config empty_db"
  from t have "outcome ?r = outcome \<lparr>final_db = close_db empty_db,
            build_log = [Info Starting_graph_build, Info (Seeds_found 0),
                         Warn No_seed_papers_found_nothing_to_build],
            outcome = Inr (out test_config)\<rparr>"
    by (simp only:)
  then have o: "outcome ?r = Inr ''graph.db''" by (simp add: test_config_def)
  from t have "runs (final_db ?r) = runs empty_db" by blast
  then have r: "runs (final_db ?r) = []" by (simp add: empty_db_def)
  from h o r show ?thesis by blast
qed

section \<open>A reference list that contains the paper itself\<close>

lemma findSeeds_self:
  "findSeeds self_citing_adapter (test_config\<lparr>depth := 1\<rparr>) = Some ([numbered ''W1''], 1)"
  by (simp add: findSeeds_def seeds_by_topic_def self_citing_adapter_def silent_adapter_def
      test_config_def slice0_def addUnique_def seedLimit_def)

lemma insert_w1: "insertPapers [numbered ''W1''] empty_db = (db_w1, [1])"
  by (simp add: insertPapers_def insert_paper_step_def insert_or_ignore_def empty_db_def
      next_rowid_def db_w1_def)

lemma assign_w1: "assign_ids [numbered ''W1''] [1] = [w1]"
  by (simp add: assign_ids_def w1_def)

lemma existing_w1: "existing_id db_w1 (numbered ''W1'') = Some 1"
  by (simp add: existing_id_def getPaperBySourceId_def db_w1_def has_key_def columns_def
      row_paper_def numbered_def)

lemma traverse_self:
  "traverseCitations self_citing_adapter db_w1 [w1] (test_config\<lparr>depth := 1\<rparr>) 1 lg =
     \<lparr>t_db = db_self,
      visited = {(OpenAlex, ''W1'')},
      edgeSeen = {(1, 1)},
      allEdges = [self_edge],
      nextFrontier = [],
      t_calls = 2,
      t_log = lg @ [Info (Starting_depth_traversal 0), Info (Citation_depth_traversed 1)]\<rparr>"
proof -
  have d: "depth (test_config\<lparr>depth := 1\<rparr>) = 1" by simp
  have m: "maxPapers (test_config\<lparr>depth := 1\<rparr>) = 150" "maxRefsPerPaper (test_config\<lparr>depth := 1\<rparr>) = 40"
    by (simp_all add: test_config_def)
  have c: "getPaperCount db_w1 = 1" by (simp add: getPaperCount_def db_w1_def)
  have f: "fetchReferences self_citing_adapter n ''W1'' 40 = Some [numbered ''W1'']" for n
    by (simp add: self_citing_adapter_def)
  have w: "paper_id w1 = Some 1" "source_id w1 = ''W1''" "source w1 = OpenAlex"
    by (simp_all add: w1_def numbered_def test_paper_def)
  show ?thesis
    unfolding traverseCitations_def
    apply (subst traverse_from.simps)
    apply (simp del: One_nat_def add: d m c f w Let_def process_paper_def process_ref_def
        existing_w1 emit_edge_def self_edge_def [symmetric] db_self_def [symmetric])
    done
qed

lemma edges_after: "edges db_self = [(1, self_edge)]"
  by (simp add: db_self_def insertEdges_def insert_edge_def db_w1_def empty_db_def next_rowid_def)

lemma nodes_after:
  "graph_nodes (getAllPapers db_self) = [1]"
  by (simp add: graph_nodes_def getAllPapers_def db_self_def db_w1_def row_paper_def)

lemma all_edges_after:
  "getAllEdges (db_self) = [self_edge]"
  by (simp add: getAllEdges_def edges_after)

lemma ends: "src_paper_id self_edge = 1" "dst_paper_id self_edge = 1" "type self_edge = CITES"
  by (simp_all add: self_edge_def traversal_edge_def)

lemma louvain_self:
  "computeLouvainClusters (test_ext a) (getAllPapers (db_self))
     [self_edge] = Inl (Self_loop_forbidden 1)"
  by (simp add: computeLouvainClusters_def nodes_after louvain_add_edge_def ends)

lemma pagerank_self:
  "computePageRank (test_ext a) (getAllPapers (db_self))
     [self_edge] = Inr [(1, 1)]"
  by (simp add: computePageRank_def nodes_after test_ext_def)

text \<open>
  Claim C2. The traversal has no check that the cited paper differs from the citing one.
  When the reference list of the seed \<open>W1\<close> contains \<open>W1\<close> itself, the lookup finds the
  seed in the store and the traversal persists the \<^verbatim>\<open>CITES\<close> edge from id 1 to id 1. The
  build then fails in \<open>computeLouvainClusters\<close>, whose graph forbids self-loops, and the
  self-citation stays in the store.
\<close>

theorem self_citation_persisted:
  "map (\<lambda>r. (src_paper_id (snd r), dst_paper_id (snd r), type (snd r)))
     (edges (final_db (buildGraph (test_ext self_citing_adapter) (test_config\<lparr>depth := 1\<rparr>) empty_db)))
     = [(1, 1, CITES)] \<and>
   outcome (buildGraph (test_ext self_citing_adapter) (test_config\<lparr>depth := 1\<rparr>) empty_db)
     = Inl (Self_loop_forbidden 1)"
proof -
  have sp: "spine (test_config\<lparr>depth := 1\<rparr>) = Citation" by (simp add: test_config_def)
  have "buildGraph (test_ext self_citing_adapter) (test_config\<lparr>depth := 1\<rparr>) empty_db =
        \<lparr>final_db = close_db (db_self),
         build_log = [Info Starting_graph_build, Info (Seeds_found 1),
                      Info (Starting_depth_traversal 0), Info (Citation_depth_traversed 1),
                      Info (Papers_in_database 1),
                      Info (TFIDF_corpus_built (corpus_size (buildCorpus no_keywords
                         (getAllPapers (db_self))))),
                      Info (PageRank_computed 1)],
         outcome = Inl (Self_loop_forbidden 1)\<rparr>"
    apply (simp del: One_nat_def
        add: buildGraph_def findSeeds_self insert_w1 assign_w1 traverse_self Let_def)
    apply (simp del: One_nat_def add: rank_and_record_def analytic_edges_def sp all_edges_after
        pagerank_self louvain_self Let_def)
    apply (simp add: test_ext_def getAllPapers_def db_self_def db_w1_def)
    done
  then show ?thesis by (simp add: close_db_def edges_after ends)
qed

section \<open>The transport and the cache\<close>

text \<open>The retry loop and the request leave the files of the cache untouched, and an
  entry older than the time to live is a miss.\<close>

lemma files_request_loop:
  "files (fst (request_loop w addr init attempt)) = files w"
proof (induction w addr init attempt rule: request_loop.induct)
  case (1 w addr init attempt)
  show ?case
    apply (subst request_loop.simps)
    using 1
    apply (auto simp: Let_def split: fetch_result.splits option.splits simp del: request_loop.simps)
    done
qed

lemma files_request:
  "files (fst (snd (request client w addr options))) = files w"
  by (simp add: request_def Let_def files_request_loop)

lemma cache_get_expired:
  "map_of (files w) (makeKey addr) = Some (Entry t u d) \<Longrightarrow> ttlMs cache < now - t \<Longrightarrow>
   cache_get cache makeKey now w addr = None"
  by (simp add: cache_get_def)

text \<open>
  Claim C5. \<open>HttpClient.request\<close> has no reference to the response cache. With a cache that
  holds a payload for the URL, written 1000 ms before the request and far inside the time
  to live, \<open>get\<close> on the cache answers the payload, and yet the request counts itself,
  fetches from the network, returns the answer of the network and leaves the files of
  the cache as they were. The expiry in \<open>get\<close> itself works: one millisecond past the time
  to live the same entry is a miss.
\<close>

theorem request_ignores_cache:
  "cache_get day_cache (\<lambda>u. u) 2000 cached_world ''https://api.openalex.org/works/W1''
     = Some (JStr ''cached'') \<and>
   request test_client cached_world ''https://api.openalex.org/works/W1'' get_options
     = (test_client\<lparr>requestCounts := [(''openalex'', 1)]\<rparr>,
        cached_world\<lparr>fetches := 1\<rparr>,
        Inr fresh_response) \<and>
   cache_get day_cache (\<lambda>u. u) (1000 + 86400000 + 1) cached_world
     ''https://api.openalex.org/works/W1'' = None"
  apply (intro conjI)
    apply (simp add: cache_get_def day_cache_def cached_world_def)
   apply (simp add: request_def Let_def get_options_def test_client_def cached_world_def
      fresh_response_def request_headers_def request_loop.simps [of _ _ _ 0])
  apply (simp add: cache_get_def day_cache_def cached_world_def)
  done

end
